theory Spec2Isabelle
  imports Complex_Main "HOL-Library.Sublist"
begin

section \<open>Python sequence operations\<close>

text \<open>
  Strings are character lists and \<open>len\<close> is \<open>length\<close>. The two slice forms the
  source uses are written out with Python's treatment of a negative bound (it counts
  from the end and is clamped at the start of the sequence); a bound beyond the end is
  clamped by \<open>take\<close> and \<open>drop\<close>.
\<close>

definition slice_to :: "'a list \<Rightarrow> int \<Rightarrow> 'a list" where
  \<comment> \<open>\<open>xs[:n]\<close>\<close>
  "slice_to xs n =
     (if n < 0 then take (nat (int (length xs) + n)) xs else take (nat n) xs)"

definition slice_from :: "'a list \<Rightarrow> int \<Rightarrow> 'a list" where
  \<comment> \<open>\<open>xs[k:]\<close>\<close>
  "slice_from xs k =
     (if k < 0 then drop (nat (int (length xs) + k)) xs else drop (nat k) xs)"

definition newline :: char where
  "newline = CHR 0x0A"

definition startswith :: "string \<Rightarrow> string \<Rightarrow> bool" where
  \<comment> \<open>\<open>s.startswith(p)\<close>\<close>
  "startswith s p = prefix p s"

definition first_line :: "string \<Rightarrow> string" where
  \<comment> \<open>\<open>s.split("\n", 1)[0]\<close>\<close>
  "first_line s = takeWhile (\<lambda>c. c \<noteq> newline) s"

section \<open>context/manager.py\<close>

subsection \<open>Message\<close>

record message =
  role :: string
  content :: string

definition Message :: "string \<Rightarrow> string \<Rightarrow> message" where
  "Message r c = \<lparr>role = r, content = c\<rparr>"

definition token_estimate :: "message \<Rightarrow> int" where
  \<comment> \<open>\<open>max(1, len(self.content) // 4)\<close>\<close>
  "token_estimate m = max 1 (int (length (content m)) div 4)"

text \<open>
  \<open>to_dict\<close> builds the dict literal \<open>{"role": ..., "content": ...}\<close>; a Python dict
  keeps insertion order, so it is an association list here.
\<close>

type_synonym msg_dict = "(string \<times> string) list"

definition to_dict :: "message \<Rightarrow> msg_dict" where
  "to_dict m = [(''role'', role m), (''content'', content m)]"

subsection \<open>ContextManager\<close>

record context_manager =
  system :: message
  max_total :: int
  max_file_tokens :: int
  max_convo :: int
  file_messages :: "message list"
  convo_messages :: "message list"
  pinned_files :: "string set"

definition init :: "string \<Rightarrow> int \<Rightarrow> int \<Rightarrow> int \<Rightarrow> context_manager" where
  \<comment> \<open>\<open>__init__(system_prompt, max_total_tokens, max_file_tokens, max_convo_messages)\<close>\<close>
  "init system_prompt max_total_tokens max_file_tokens' max_convo_messages =
     \<lparr>system = Message ''system'' system_prompt,
      max_total = max_total_tokens,
      max_file_tokens = max_file_tokens',
      max_convo = max_convo_messages,
      file_messages = [],
      convo_messages = [],
      pinned_files = {}\<rparr>"

subsubsection \<open>File layer\<close>

definition file_tag :: "string \<Rightarrow> string" where
  \<comment> \<open>\<open>f"[PROJECT_FILE] {path}"\<close>\<close>
  "file_tag path = ''[PROJECT_FILE] '' @ path"

definition has_tag :: "string \<Rightarrow> message \<Rightarrow> bool" where
  \<comment> \<open>\<open>m.content.startswith(tag + "\n")\<close>\<close>
  "has_tag path m = startswith (content m) (file_tag path @ [newline])"

definition TRUNCATED :: string where
  \<comment> \<open>the literal \<open>"\n\n/* ...TRUNCATED... (tail follows) */\n\n"\<close>\<close>
  "TRUNCATED =
     [newline, newline] @ ''/* ...TRUNCATED... (tail follows) */'' @ [newline, newline]"

definition apply_file_budget :: "int \<Rightarrow> string \<Rightarrow> string" where
  \<comment> \<open>\<open>_apply_file_budget\<close>; the first argument is \<open>self._max_file_tokens\<close>\<close>
  "apply_file_budget mft text =
     (let max_chars = mft * 4 in
      if int (length text) \<le> max_chars then text
      else
        let half = max_chars div 2;
            head = slice_to text half;
            tail = slice_from text (- (half - 100))
        in head @ TRUNCATED @ tail)"

definition upsert_file :: "context_manager \<Rightarrow> string \<Rightarrow> string \<Rightarrow> context_manager" where
  "upsert_file cm path text =
     (let kept = filter (\<lambda>m. \<not> has_tag path m) (file_messages cm);
          budgeted = apply_file_budget (max_file_tokens cm) text
      in cm\<lparr>file_messages :=
              kept @ [Message ''user'' (file_tag path @ [newline] @ budgeted)]\<rparr>)"

text \<open>
  \<open>os.path.abspath\<close> depends on the process's working directory; it is a parameter
  of every operation that calls it.
\<close>

definition remove_file ::
  "(string \<Rightarrow> string) \<Rightarrow> context_manager \<Rightarrow> string \<Rightarrow> bool \<Rightarrow> bool \<times> context_manager" where
  "remove_file abspath cm path0 force =
     (let path = abspath path0 in
      if path \<in> pinned_files cm \<and> \<not> force then (False, cm)
      else
        (True,
         cm\<lparr>file_messages := filter (\<lambda>m. \<not> has_tag path m) (file_messages cm),
            pinned_files := pinned_files cm - {path}\<rparr>))"

definition file_paths :: "context_manager \<Rightarrow> string list" where
  "file_paths cm =
     map (\<lambda>m. drop (length ''[PROJECT_FILE] '') (first_line (content m)))
       (filter (\<lambda>m. startswith (first_line (content m)) ''[PROJECT_FILE] '')
          (file_messages cm))"

definition pin_file ::
  "(string \<Rightarrow> string) \<Rightarrow> context_manager \<Rightarrow> string \<Rightarrow> bool \<times> context_manager" where
  "pin_file abspath cm path0 =
     (let path = abspath path0 in
      if list_ex (has_tag path) (file_messages cm)
      then (True, cm\<lparr>pinned_files := insert path (pinned_files cm)\<rparr>)
      else (False, cm))"

definition unpin_file :: "(string \<Rightarrow> string) \<Rightarrow> context_manager \<Rightarrow> string \<Rightarrow> context_manager" where
  "unpin_file abspath cm path0 = cm\<lparr>pinned_files := pinned_files cm - {abspath path0}\<rparr>"

definition is_pinned :: "(string \<Rightarrow> string) \<Rightarrow> context_manager \<Rightarrow> string \<Rightarrow> bool" where
  "is_pinned abspath cm path0 = (abspath path0 \<in> pinned_files cm)"

subsubsection \<open>Conversation layer\<close>

definition trim_convo :: "context_manager \<Rightarrow> context_manager" where
  \<comment> \<open>\<open>_trim_convo\<close>: \<open>self._convo_messages[-self._max_convo:]\<close>\<close>
  "trim_convo cm =
     (if int (length (convo_messages cm)) > max_convo cm
      then cm\<lparr>convo_messages := slice_from (convo_messages cm) (- max_convo cm)\<rparr>
      else cm)"

definition add_user :: "context_manager \<Rightarrow> string \<Rightarrow> context_manager" where
  "add_user cm text =
     trim_convo (cm\<lparr>convo_messages := convo_messages cm @ [Message ''user'' text]\<rparr>)"

definition add_assistant :: "context_manager \<Rightarrow> string \<Rightarrow> context_manager" where
  "add_assistant cm text =
     trim_convo (cm\<lparr>convo_messages := convo_messages cm @ [Message ''assistant'' text]\<rparr>)"

definition reset_convo :: "context_manager \<Rightarrow> context_manager" where
  "reset_convo cm = cm\<lparr>convo_messages := []\<rparr>"

subsubsection \<open>Building the message list\<close>

definition ephemeral_of :: "string option \<Rightarrow> message list" where
  \<comment> \<open>\<open>[Message("user", e)] if e else []\<close>: \<open>None\<close> and the empty string are both falsy\<close>
  "ephemeral_of e =
     (case e of None \<Rightarrow> [] | Some t \<Rightarrow> if t = [] then [] else [Message ''user'' t])"

definition total_tokens ::
  "context_manager \<Rightarrow> message list \<Rightarrow> message list \<Rightarrow> int" where
  \<comment> \<open>the local function \<open>total_tokens(convo)\<close>, closed over \<open>self\<close> and \<open>ephemeral\<close>\<close>
  "total_tokens cm ephemeral convo =
     token_estimate (system cm)
     + sum_list (map token_estimate (file_messages cm))
     + sum_list (map token_estimate convo)
     + sum_list (map token_estimate ephemeral)"

fun drop_oldest ::
  "context_manager \<Rightarrow> message list \<Rightarrow> message list \<Rightarrow> message list" where
  \<comment> \<open>\<open>while total_tokens(convo) > self._max_total and convo: convo.pop(0)\<close>\<close>
  "drop_oldest cm ephemeral [] = []"
| "drop_oldest cm ephemeral (m # convo) =
     (if total_tokens cm ephemeral (m # convo) > max_total cm
      then drop_oldest cm ephemeral convo
      else m # convo)"

definition compress :: "context_manager \<Rightarrow> message \<Rightarrow> message" where
  \<comment> \<open>\<open>Message(m.role, self._apply_file_budget(m.content[: self._max_file_tokens * 2]))\<close>\<close>
  "compress cm m =
     Message (role m)
       (apply_file_budget (max_file_tokens cm)
          (slice_to (content m) (max_file_tokens cm * 2)))"

definition build_messages :: "context_manager \<Rightarrow> string option \<Rightarrow> msg_dict list" where
  "build_messages cm ephemeral_user_content =
     (let ephemeral = ephemeral_of ephemeral_user_content;
          convo = drop_oldest cm ephemeral (convo_messages cm);
          file_msgs =
            (if total_tokens cm ephemeral convo > max_total cm
             then map (compress cm) (file_messages cm)
             else file_messages cm);
          all_messages = [system cm] @ file_msgs @ convo @ ephemeral
      in map to_dict all_messages)"

definition estimated_total_tokens :: "context_manager \<Rightarrow> int" where
  "estimated_total_tokens cm =
     token_estimate (system cm)
     + sum_list (map token_estimate (file_messages cm))
     + sum_list (map token_estimate (convo_messages cm))"

section \<open>client/base.py and the exceptions of a provider call\<close>

datatype StreamChunk = StreamChunk (chunk_content: string) (chunk_reasoning: string)

text \<open>
  The exceptions that reach \<open>NvidiaProvider.stream\<close> and \<open>SessionManager.send\<close>, each
  with the text \<open>str(e)\<close> gives. \<open>APIConnectionError\<close> and \<open>RateLimitError\<close> are
  subclasses of \<open>APIError\<close>; the constructor \<open>APIError\<close> stands for every other
  \<open>APIError\<close>. \<open>ValueError\<close> and \<open>OverflowError\<close> are what \<open>time.sleep\<close> raises on a
  delay it does not accept, and \<open>OtherException\<close> is an exception outside all these
  classes.
\<close>

datatype exn =
    KeyboardInterrupt
  | RuntimeError string
  | APIConnectionError string
  | RateLimitError string
  | APIError string
  | ValueError string
  | OverflowError string
  | OtherException string

fun exn_str :: "exn \<Rightarrow> string" where
  "exn_str KeyboardInterrupt = []"
| "exn_str (RuntimeError s) = s"
| "exn_str (APIConnectionError s) = s"
| "exn_str (RateLimitError s) = s"
| "exn_str (APIError s) = s"
| "exn_str (ValueError s) = s"
| "exn_str (OverflowError s) = s"
| "exn_str (OtherException s) = s"

fun is_transient :: "exn \<Rightarrow> bool" where
  \<comment> \<open>\<open>except (APIConnectionError, RateLimitError)\<close>\<close>
  "is_transient (APIConnectionError s) = True"
| "is_transient (RateLimitError s) = True"
| "is_transient e = False"

fun is_api_error :: "exn \<Rightarrow> bool" where
  \<comment> \<open>\<open>except APIError\<close>\<close>
  "is_api_error (APIConnectionError s) = True"
| "is_api_error (RateLimitError s) = True"
| "is_api_error (APIError s) = True"
| "is_api_error e = False"

text \<open>\<open>str\<close> of an integer, for the message of the final failure.\<close>

fun str_nat :: "nat \<Rightarrow> string" where
  "str_nat n =
     (if n < 10 then [char_of (48 + n)]
      else str_nat (n div 10) @ [char_of (48 + n mod 10)])"

definition str_int :: "int \<Rightarrow> string" where
  "str_int i = (if i < 0 then CHR ''-'' # str_nat (nat (- i)) else str_nat (nat i))"

definition str_last_exc :: "exn option \<Rightarrow> string" where
  "str_last_exc last_exc = (case last_exc of None \<Rightarrow> ''None'' | Some e \<Rightarrow> exn_str e)"

section \<open>client/nvidia.py\<close>

text \<open>
  A chunk of the remote completion, as far as the providers read it: \<open>choices\<close> may
  be missing or empty, the first choice's \<open>delta\<close> may be missing or \<open>None\<close>, and so
  may the delta's \<open>reasoning_content\<close> and \<open>content\<close> (\<open>getattr(..., None)\<close>).
\<close>

datatype Delta = Delta (reasoning_content: "string option") (delta_content: "string option")
datatype Choice = Choice (delta: "Delta option")
datatype RawChunk = RawChunk (choices: "Choice list option")

definition or_empty :: "string option \<Rightarrow> string" where
  \<comment> \<open>\<open>v or ""\<close>\<close>
  "or_empty v = (case v of None \<Rightarrow> [] | Some s \<Rightarrow> s)"

fun parse_chunk :: "RawChunk \<Rightarrow> StreamChunk option" where
  "parse_chunk (RawChunk None) = None"
| "parse_chunk (RawChunk (Some [])) = None"
| "parse_chunk (RawChunk (Some (Choice None # rest))) = None"
| "parse_chunk (RawChunk (Some (Choice (Some d) # rest))) =
     (let reasoning = or_empty (reasoning_content d);
          content' = or_empty (delta_content d)
      in if reasoning \<noteq> [] \<or> content' \<noteq> [] then Some (StreamChunk content' reasoning)
         else None)"

fun parse_stream :: "RawChunk list \<Rightarrow> StreamChunk list" where
  \<comment> \<open>\<open>NvidiaProvider._parse_stream\<close>\<close>
  "parse_stream [] = []"
| "parse_stream (c # completion) =
     (case parse_chunk c of
        None \<Rightarrow> parse_stream completion
      | Some chunk \<Rightarrow> chunk # parse_stream completion)"

text \<open>
  \<open>retry_delay\<close> is a Python float: a finite double, an infinity or NaN
  (\<open>float(os.getenv("RETRY_DELAY", "1.5"))\<close> accepts all of them). The delay of an
  attempt is \<open>self._retry_delay * (2 ** attempt)\<close>. The integer \<open>2 ** attempt\<close> is
  converted to a float first, which raises \<open>OverflowError\<close> from \<open>2 ** 1024\<close> on.
  Below that the power is a double, and the product of a double with it is exact
  unless it leaves the range of the doubles, where it is an infinity.
\<close>

datatype py_float = Finite real | PosInf | NegInf | NaN

definition dbl_max :: real where
  \<comment> \<open>the largest finite double\<close>
  "dbl_max = 2 ^ 1024 - 2 ^ 971"

fun times_pow2 :: "py_float \<Rightarrow> nat \<Rightarrow> py_float" where
  "times_pow2 (Finite r) n =
     (if dbl_max < r * 2 ^ n then PosInf
      else if r * 2 ^ n < - dbl_max then NegInf
      else Finite (r * 2 ^ n))"
| "times_pow2 PosInf n = PosInf"
| "times_pow2 NegInf n = NegInf"
| "times_pow2 NaN n = NaN"

definition wait_of :: "py_float \<Rightarrow> nat \<Rightarrow> exn + py_float" where
  \<comment> \<open>\<open>self._retry_delay * (2 ** attempt)\<close>\<close>
  "wait_of delay attempt =
     (if 1024 \<le> attempt then Inl (OverflowError ''int too large to convert to float'')
      else Inr (times_pow2 delay attempt))"

text \<open>
  What the remote API does at one attempt is an input of the model: the call
  \<open>chat.completions.create\<close> raises, or returns a completion that delivers chunks and
  then ends or raises while it is read. \<open>time.sleep\<close> is an input too: a function that
  says, for a delay, whether the call returns (\<open>None\<close>) or what it raises. Both the
  \<open>create\<close> call and the \<open>yield from\<close> stand inside the \<open>try\<close>, so a failure while
  the completion is read is handled like a failure of the call, after the fragments
  read so far have been yielded; the delay, the \<open>print\<close> and the \<open>time.sleep\<close>
  stand in the handler, so what the product or \<open>time.sleep\<close> raises leaves the
  generator.

  A run of \<open>stream\<close>, consumed to its end, is the fragments it yields, the trace of
  its effects (the create calls by attempt index, the retry line it prints, the
  backoff sleeps that returned) and how it ends. The loop \<open>for attempt in
  range(self._max_retries)\<close> is a recursion on the attempts that remain.
\<close>

datatype attempt = CreateRaises exn | Completion "RawChunk list" "exn option"

fun run_attempt :: "attempt \<Rightarrow> StreamChunk list \<times> exn option" where
  "run_attempt (CreateRaises e) = ([], Some e)"
| "run_attempt (Completion completion raised) = (parse_stream completion, raised)"

datatype provider_event =
    Create nat
  | Print nat int string py_float
  | Sleep py_float

datatype outcome = Returned | Raised exn

record stream_run =
  yielded :: "StreamChunk list"
  events :: "provider_event list"
  outcome :: outcome

record nvidia_provider =
  max_retries :: int
  retry_delay :: py_float

fun stream_loop ::
  "(py_float \<Rightarrow> exn option) \<Rightarrow> nvidia_provider \<Rightarrow> (nat \<Rightarrow> attempt) \<Rightarrow> nat \<Rightarrow> nat
     \<Rightarrow> exn option \<Rightarrow> stream_run" where
  "stream_loop time_sleep np api 0 attempt last_exc =
     \<lparr>yielded = [], events = [],
      outcome = Raised (RuntimeError
        (''All '' @ str_int (max_retries np) @ '' retries failed: '' @ str_last_exc last_exc))\<rparr>"
| "stream_loop time_sleep np api (Suc remaining) attempt last_exc =
     (case run_attempt (api attempt) of
        (chunks, None) \<Rightarrow>
          \<lparr>yielded = chunks, events = [Create attempt], outcome = Returned\<rparr>
      | (chunks, Some e) \<Rightarrow>
          if is_transient e then
            (case wait_of (retry_delay np) attempt of
               Inl raised \<Rightarrow>
                 \<lparr>yielded = chunks, events = [Create attempt], outcome = Raised raised\<rparr>
             | Inr wait \<Rightarrow>
                 (let printed = Print (attempt + 1) (max_retries np) (exn_str e) wait
                  in case time_sleep wait of
                       Some raised \<Rightarrow>
                         \<lparr>yielded = chunks, events = [Create attempt, printed],
                          outcome = Raised raised\<rparr>
                     | None \<Rightarrow>
                         (let rest =
                                stream_loop time_sleep np api remaining (Suc attempt) (Some e)
                          in rest\<lparr>yielded := chunks @ yielded rest,
                                  events :=
                                    [Create attempt, printed, Sleep wait] @ events rest\<rparr>)))
          else if is_api_error e then
            \<lparr>yielded = chunks, events = [Create attempt],
             outcome = Raised (RuntimeError (''API error: '' @ exn_str e))\<rparr>
          else
            \<lparr>yielded = chunks, events = [Create attempt], outcome = Raised e\<rparr>)"

definition stream ::
  "(py_float \<Rightarrow> exn option) \<Rightarrow> nvidia_provider
     \<Rightarrow> (msg_dict list \<Rightarrow> real \<Rightarrow> int \<Rightarrow> nat \<Rightarrow> attempt)
     \<Rightarrow> msg_dict list \<Rightarrow> real \<Rightarrow> int \<Rightarrow> stream_run" where
  \<comment> \<open>\<open>NvidiaProvider.stream\<close>\<close>
  "stream time_sleep np create messages temperature max_tokens =
     stream_loop time_sleep np (create messages temperature max_tokens)
       (nat (max_retries np)) 0 None"

text \<open>The backoff sleeps and the create calls of a trace, and the delay of an attempt.\<close>

fun sleeps :: "provider_event list \<Rightarrow> py_float list" where
  "sleeps [] = []"
| "sleeps (Sleep w # es) = w # sleeps es"
| "sleeps (e # es) = sleeps es"

fun creates :: "provider_event list \<Rightarrow> nat list" where
  "creates [] = []"
| "creates (Create k # es) = k # creates es"
| "creates (e # es) = creates es"

definition backoff :: "nvidia_provider \<Rightarrow> nat \<Rightarrow> exn + py_float" where
  "backoff np attempt = wait_of (retry_delay np) attempt"

definition sleeps_well :: "(py_float \<Rightarrow> exn option) \<Rightarrow> nvidia_provider \<Rightarrow> nat \<Rightarrow> bool" where
  \<comment> \<open>the delay of the attempt is computed and \<open>time.sleep\<close> returns on it\<close>
  "sleeps_well time_sleep np attempt =
     (case backoff np attempt of Inl raised \<Rightarrow> False | Inr wait \<Rightarrow> time_sleep wait = None)"


text \<open>
  \<open>OllamaProvider.stream\<close> makes one create call and has no handler: it reads the
  content of each chunk's first choice and lets every exception through.
\<close>

fun ollama_chunk :: "RawChunk \<Rightarrow> StreamChunk option" where
  "ollama_chunk (RawChunk None) = None"
| "ollama_chunk (RawChunk (Some [])) = None"
| "ollama_chunk (RawChunk (Some (Choice None # rest))) = None"
| "ollama_chunk (RawChunk (Some (Choice (Some d) # rest))) =
     (let content' = or_empty (delta_content d)
      in if content' \<noteq> [] then Some (StreamChunk content' []) else None)"

fun ollama_parse :: "RawChunk list \<Rightarrow> StreamChunk list" where
  "ollama_parse [] = []"
| "ollama_parse (c # completion) =
     (case ollama_chunk c of
        None \<Rightarrow> ollama_parse completion
      | Some chunk \<Rightarrow> chunk # ollama_parse completion)"

fun ollama_run :: "attempt \<Rightarrow> StreamChunk list \<times> exn option" where
  "ollama_run (CreateRaises e) = ([], Some e)"
| "ollama_run (Completion completion raised) = (ollama_parse completion, raised)"

section \<open>session/manager.py\<close>

text \<open>
  The calls on the \<open>Display\<close> helper are a trace. A provider, as \<open>send\<close> sees it, maps
  the request to the fragments \<open>send\<close> consumes and to what ends the iteration:
  exhaustion (\<open>None\<close>) or an exception, among them the \<open>KeyboardInterrupt\<close> of a user
  who cancels while \<open>send\<close> waits for the next fragment. \<open>send\<close> catches
  \<open>KeyboardInterrupt\<close> and \<open>RuntimeError\<close>; any other exception leaves \<open>send\<close> before
  the code after the \<open>try\<close> statement runs.
\<close>

datatype display_event =
    ShowStream string
  | ShowReasoning string
  | ShowInfo string
  | ShowError string
  | ShowNewline

type_synonym provider = "msg_dict list \<Rightarrow> real \<Rightarrow> int \<Rightarrow> StreamChunk list \<times> exn option"

record session_manager =
  provider :: provider
  temperature :: real
  max_tokens :: int

fun consume ::
  "StreamChunk list \<Rightarrow> display_event list \<Rightarrow> string \<Rightarrow> display_event list \<times> string" where
  "consume [] shown full_response = (shown, full_response)"
| "consume (chunk # rest) shown full_response =
     (let shown1 =
            (if chunk_reasoning chunk \<noteq> [] then shown @ [ShowReasoning (chunk_reasoning chunk)]
             else shown)
      in if chunk_content chunk \<noteq> []
         then consume rest (shown1 @ [ShowStream (chunk_content chunk)])
                (full_response @ chunk_content chunk)
         else consume rest shown1 full_response)"

record send_result =
  returned :: "exn + string option"
  ctx :: context_manager
  displayed :: "display_event list"

definition finalize :: "context_manager \<Rightarrow> display_event list \<Rightarrow> string \<Rightarrow> send_result" where
  \<comment> \<open>the code of \<open>send\<close> after the \<open>try\<close> statement\<close>
  "finalize cm shown full_response =
     \<lparr>returned = Inr (if full_response \<noteq> [] then Some full_response else None),
      ctx = (if full_response \<noteq> [] then add_assistant cm full_response else cm),
      displayed = shown @ [ShowNewline]\<rparr>"

definition send :: "session_manager \<Rightarrow> context_manager \<Rightarrow> string \<Rightarrow> bool \<Rightarrow> send_result" where
  "send sm cm user_message record_in_history =
     (let cm1 = (if record_in_history then add_user cm user_message else cm);
          messages =
            build_messages cm1 (if record_in_history then None else Some user_message);
          (chunks, raised) = provider sm messages (temperature sm) (max_tokens sm);
          (shown, full_response) = consume chunks [] []
      in case raised of
           None \<Rightarrow> finalize cm1 shown full_response
         | Some KeyboardInterrupt \<Rightarrow>
             finalize cm1
               (shown @ [ShowInfo (newline # ''[Stream interrupted by user]'')]) full_response
         | Some (RuntimeError msg) \<Rightarrow> finalize cm1 (shown @ [ShowError msg]) full_response
         | Some e \<Rightarrow> \<lparr>returned = Inl e, ctx = cm1, displayed = shown\<rparr>)"

text \<open>\<open>NvidiaProvider.stream\<close> and \<open>OllamaProvider.stream\<close> as such providers.\<close>

definition nvidia_stream ::
  "(py_float \<Rightarrow> exn option) \<Rightarrow> nvidia_provider
     \<Rightarrow> (msg_dict list \<Rightarrow> real \<Rightarrow> int \<Rightarrow> nat \<Rightarrow> attempt) \<Rightarrow> provider" where
  "nvidia_stream time_sleep np create messages temperature' max_tokens' =
     (let run = stream time_sleep np create messages temperature' max_tokens'
      in (yielded run, case outcome run of Returned \<Rightarrow> None | Raised e \<Rightarrow> Some e))"

definition ollama_stream :: "(msg_dict list \<Rightarrow> real \<Rightarrow> int \<Rightarrow> attempt) \<Rightarrow> provider" where
  "ollama_stream create messages temperature' max_tokens' =
     ollama_run (create messages temperature' max_tokens')"

text \<open>
  The context after the entry step of \<open>send\<close>, the content text of the fragments, and
  the endings \<open>send\<close> handles.
\<close>

definition entered :: "context_manager \<Rightarrow> string \<Rightarrow> bool \<Rightarrow> context_manager" where
  "entered cm user_message record_in_history =
     (if record_in_history then add_user cm user_message else cm)"

definition accumulated :: "StreamChunk list \<Rightarrow> string" where
  "accumulated chunks = concat (map chunk_content chunks)"

definition handled :: "exn option \<Rightarrow> bool" where
  "handled raised =
     (case raised of None \<Rightarrow> True | Some KeyboardInterrupt \<Rightarrow> True
      | Some (RuntimeError msg) \<Rightarrow> True | Some e \<Rightarrow> False)"

text \<open>
  An attempt in which the remote API raises nothing but an \<open>APIError\<close> (of any
  subclass), at the create call or while the completion is read.
\<close>

definition api_failures_only :: "attempt \<Rightarrow> bool" where
  "api_failures_only att =
     (case att of
        CreateRaises e \<Rightarrow> is_api_error e
      | Completion completion None \<Rightarrow> True
      | Completion completion (Some e) \<Rightarrow> is_api_error e)"

section \<open>build_messages on a store of list objects\<close>

text \<open>
  \<open>build_messages\<close> works on copies: \<open>list(self._convo_messages)\<close> and
  \<open>list(self._file_messages)\<close> are new list objects, \<open>convo.pop(0)\<close> mutates the first
  copy in place, and the comprehension that shrinks the files builds a third list.
  Whether the lists of \<open>self\<close> survive the call depends on this aliasing, so the
  function is modelled a second time over an explicit store: the attributes of \<open>self\<close>
  hold the addresses of its two lists, a store cell holds the elements of a list
  object, and a new list takes the next free address. \<open>Message\<close> objects are never
  mutated and stay values.
\<close>

type_synonym addr = nat

record context_object =
  self_system :: message
  self_max_total :: int
  self_max_file_tokens :: int
  self_max_convo :: int
  self_file_messages :: addr
  self_convo_messages :: addr
  self_pinned_files :: "string set"

record py_state =
  attrs :: context_object
  cells :: "addr \<Rightarrow> message list"
  next_addr :: addr

definition new_list :: "message list \<Rightarrow> py_state \<Rightarrow> addr \<times> py_state" where
  "new_list xs s =
     (next_addr s, s\<lparr>cells := (cells s)(next_addr s := xs), next_addr := Suc (next_addr s)\<rparr>)"

definition pop_first :: "addr \<Rightarrow> py_state \<Rightarrow> py_state" where
  "pop_first a s = s\<lparr>cells := (cells s)(a := tl (cells s a))\<rparr>"

definition total_tokens_st :: "py_state \<Rightarrow> message list \<Rightarrow> addr \<Rightarrow> int" where
  "total_tokens_st s ephemeral convo =
     token_estimate (self_system (attrs s))
     + sum_list (map token_estimate (cells s (self_file_messages (attrs s))))
     + sum_list (map token_estimate (cells s convo))
     + sum_list (map token_estimate ephemeral)"

function drop_oldest_st :: "py_state \<Rightarrow> message list \<Rightarrow> addr \<Rightarrow> py_state" where
  "drop_oldest_st s ephemeral convo =
     (if total_tokens_st s ephemeral convo > self_max_total (attrs s) \<and> cells s convo \<noteq> []
      then drop_oldest_st (pop_first convo s) ephemeral convo
      else s)"
  by pat_completeness auto
termination
  by (relation "measure (\<lambda>(s, ephemeral, convo). length (cells s convo))")
     (auto simp: pop_first_def)

declare drop_oldest_st.simps [simp del]

definition compress_st :: "py_state \<Rightarrow> message \<Rightarrow> message" where
  "compress_st s m =
     Message (role m)
       (apply_file_budget (self_max_file_tokens (attrs s))
          (slice_to (content m) (self_max_file_tokens (attrs s) * 2)))"

definition build_messages_st :: "py_state \<Rightarrow> string option \<Rightarrow> msg_dict list \<times> py_state" where
  "build_messages_st s ephemeral_user_content =
     (let ephemeral = ephemeral_of ephemeral_user_content;
          (convo, s1) = new_list (cells s (self_convo_messages (attrs s))) s;
          s2 = drop_oldest_st s1 ephemeral convo;
          (file_msgs, s3) = new_list (cells s2 (self_file_messages (attrs s2))) s2;
          (file_msgs', s4) =
            (if total_tokens_st s3 ephemeral convo > self_max_total (attrs s3)
             then new_list (map (compress_st s3) (cells s3 file_msgs)) s3
             else (file_msgs, s3));
          all_messages =
            [self_system (attrs s4)] @ cells s4 file_msgs' @ cells s4 convo @ ephemeral
      in (map to_dict all_messages, s4))"

text \<open>
  The state of the first model that a store holds, the stores in which the lists of
  \<open>self\<close> are allocated, and a store that holds a given state.
\<close>

definition view :: "py_state \<Rightarrow> context_manager" where
  "view s =
     \<lparr>system = self_system (attrs s),
      max_total = self_max_total (attrs s),
      max_file_tokens = self_max_file_tokens (attrs s),
      max_convo = self_max_convo (attrs s),
      file_messages = cells s (self_file_messages (attrs s)),
      convo_messages = cells s (self_convo_messages (attrs s)),
      pinned_files = self_pinned_files (attrs s)\<rparr>"

definition well_formed :: "py_state \<Rightarrow> bool" where
  "well_formed s \<longleftrightarrow>
     self_file_messages (attrs s) < next_addr s \<and> self_convo_messages (attrs s) < next_addr s"

definition store_of :: "context_manager \<Rightarrow> py_state" where
  "store_of cm =
     \<lparr>attrs =
        \<lparr>self_system = system cm, self_max_total = max_total cm,
         self_max_file_tokens = max_file_tokens cm, self_max_convo = max_convo cm,
         self_file_messages = 0, self_convo_messages = 1,
         self_pinned_files = pinned_files cm\<rparr>,
      cells = (\<lambda>a. [])(0 := file_messages cm, 1 := convo_messages cm),
      next_addr = 2\<rparr>"

section \<open>Runs, measures and example states\<close>

text \<open>
  Sequences of calls, the measures the properties below are stated with, and the
  concrete states and inputs at which they are instantiated. In the examples the
  working directory plays no part: the paths are absolute already, so
  \<open>os.path.abspath\<close> is the identity on them.
\<close>

definition abs_id :: "string \<Rightarrow> string" where
  "abs_id p = p"

definition ex_default :: context_manager where
  \<comment> \<open>the budgets of config.py: 4500 total tokens, 1500 per file, 40 conversation messages\<close>
  "ex_default = init ''You are a helpful AI assistant'' 4500 1500 40"

definition ex_two :: context_manager where
  "ex_two = upsert_file (upsert_file ex_default ''/a'' ''x = 1'') ''/b'' ''y = 1''"

definition ex_pinned :: context_manager where
  \<comment> \<open>\<open>/a\<close> and \<open>/b\<close> loaded and both pinned, one conversation turn\<close>
  "ex_pinned =
     add_user (snd (pin_file abs_id (snd (pin_file abs_id ex_two ''/a'')) ''/b'')) ''hello''"

subsection \<open>Sequences of conversation appends\<close>

text \<open>
  A run of \<open>add_user\<close>/\<open>add_assistant\<close> calls, the message each call appends, and
  the last \<open>n\<close> elements of a list.
\<close>

datatype convo_call = AddUser string | AddAssistant string

fun run_call :: "context_manager \<Rightarrow> convo_call \<Rightarrow> context_manager" where
  "run_call cm (AddUser t) = add_user cm t"
| "run_call cm (AddAssistant t) = add_assistant cm t"

fun message_of_call :: "convo_call \<Rightarrow> message" where
  "message_of_call (AddUser t) = Message ''user'' t"
| "message_of_call (AddAssistant t) = Message ''assistant'' t"

definition most_recent :: "nat \<Rightarrow> 'a list \<Rightarrow> 'a list" where
  "most_recent n xs = drop (length xs - n) xs"

subsection \<open>Measuring a built message list\<close>



subsection \<open>States under budget pressure\<close>



definition ex_over :: context_manager where
  "ex_over =
     add_user (upsert_file (init ''sys'' 40 60 40) ''/a'' (replicate 300 CHR ''x''))
       (replicate 100 CHR ''u'')"

subsection \<open>Sequences of upserts\<close>

text \<open>
  A run of \<open>upsert_file\<close> calls, the entry a call stores, the text of the last call
  for a path, and the path \<open>file_paths\<close> reads off an entry.
\<close>

definition upserts :: "context_manager \<Rightarrow> (string \<times> string) list \<Rightarrow> context_manager" where
  "upserts cm calls = foldl (\<lambda>cm (path, text). upsert_file cm path text) cm calls"

definition entry :: "context_manager \<Rightarrow> string \<Rightarrow> string \<Rightarrow> message" where
  "entry cm path text =
     Message ''user'' (file_tag path @ [newline] @ apply_file_budget (max_file_tokens cm) text)"

definition latest :: "(string \<times> string) list \<Rightarrow> string \<Rightarrow> string option" where
  "latest calls path = map_of (rev calls) path"

definition path_of :: "message \<Rightarrow> string" where
  "path_of m = drop (length ''[PROJECT_FILE] '') (first_line (content m))"

subsection \<open>Providers and sessions\<close>

text \<open>
  \<open>time.sleep\<close> as CPython has it, for the examples: a delay must fit a timestamp of
  \<open>2^63\<close> nanoseconds (about 9223372036 seconds), else \<open>OverflowError\<close>; NaN and a
  negative delay are a \<open>ValueError\<close>.
\<close>

fun cpython_sleep :: "py_float \<Rightarrow> exn option" where
  "cpython_sleep (Finite r) =
     (if r < - 9223372036 \<or> 9223372036 < r
      then Some (OverflowError ''timestamp too large to convert to C _PyTime_t'')
      else if r < 0 then Some (ValueError ''sleep length must be non-negative'')
      else None)"
| "cpython_sleep PosInf = Some (OverflowError ''timestamp too large to convert to C _PyTime_t'')"
| "cpython_sleep NegInf = Some (OverflowError ''timestamp too large to convert to C _PyTime_t'')"
| "cpython_sleep NaN = Some (ValueError ''Invalid value NaN (not a number)'')"

text \<open>
  The retry settings of config.py (3 retries, 1.5 seconds) and the same with a
  negative delay; behaviours of the remote API: two rate limits and then a completion,
  a rejected request, a connection that never comes up, two connections that break
  after the fragment \<open>he\<close> and a third that delivers \<open>hello\<close>, and a completion that
  fails with an \<open>APIError\<close> after the fragments \<open>par\<close> and \<open>tial\<close>; a session on
  \<open>OllamaProvider\<close> and one on \<open>NvidiaProvider\<close>.
\<close>

definition ex_np :: nvidia_provider where
  "ex_np = \<lparr>max_retries = 3, retry_delay = Finite (3 / 2)\<rparr>"


definition content_chunk :: "string \<Rightarrow> RawChunk" where
  "content_chunk s = RawChunk (Some [Choice (Some (Delta None (Some s)))])"





definition ex_api_failing :: "msg_dict list \<Rightarrow> real \<Rightarrow> int \<Rightarrow> attempt" where
  "ex_api_failing messages temperature' max_tokens' =
     Completion [content_chunk ''par'', content_chunk ''tial''] (Some (APIError ''500''))"

definition ex_ollama :: session_manager where
  "ex_ollama =
     \<lparr>provider = ollama_stream ex_api_failing, temperature = 2 / 5, max_tokens = 4096\<rparr>"

definition ex_nvidia :: session_manager where
  "ex_nvidia =
     \<lparr>provider = nvidia_stream cpython_sleep ex_np (\<lambda>messages temperature' max_tokens' attempt.
          ex_api_failing messages temperature' max_tokens'),
      temperature = 2 / 5, max_tokens = 4096\<rparr>"

section \<open>Properties of the file layer\<close>

lemmas ctx_defs =
  init_def Message_def upsert_file_def remove_file_def pin_file_def unpin_file_def
  is_pinned_def has_tag_def startswith_def file_tag_def apply_file_budget_def
  slice_to_def slice_from_def newline_def TRUNCATED_def abs_id_def Let_def

lemma filter_has_tag_none:
  "\<not> list_ex (has_tag p) (filter (\<lambda>m. \<not> has_tag p m) ms)"
  by (induction ms) auto

text \<open>
  C7. The document identifier of a call is the canonical path \<open>abspath path\<close>.
  When that identifier is pinned, \<open>remove_file\<close> without force returns False and the
  whole state is as before. With force it returns True; the file layer afterwards is
  the old one without the entries that carry the identifier's tag, every other entry
  kept in its order; the pin set is the old one without the identifier; and nothing
  else of the state changes. On an identifier that is neither pinned nor present, the
  unforced call returns True (and changes nothing).
\<close>

theorem remove_file_contract:
  "(is_pinned abspath cm p \<longrightarrow> remove_file abspath cm p False = (False, cm))
   \<and> (fst (remove_file abspath cm p True)
        \<and> file_messages (snd (remove_file abspath cm p True))
            = filter (\<lambda>m. \<not> has_tag (abspath p) m) (file_messages cm)
        \<and> \<not> list_ex (has_tag (abspath p)) (file_messages (snd (remove_file abspath cm p True)))
        \<and> pinned_files (snd (remove_file abspath cm p True)) = pinned_files cm - {abspath p}
        \<and> \<not> is_pinned abspath (snd (remove_file abspath cm p True)) p
        \<and> snd (remove_file abspath cm p True)
            = cm\<lparr>file_messages := file_messages (snd (remove_file abspath cm p True)),
                 pinned_files := pinned_files (snd (remove_file abspath cm p True))\<rparr>)
   \<and> (\<not> is_pinned abspath cm p \<and> \<not> list_ex (has_tag (abspath p)) (file_messages cm)
        \<longrightarrow> remove_file abspath cm p False = (True, cm))"
proof (intro conjI)
  show "is_pinned abspath cm p \<longrightarrow> remove_file abspath cm p False = (False, cm)"
    by (simp add: is_pinned_def remove_file_def)
next
  show "fst (remove_file abspath cm p True)"
    by (simp add: remove_file_def Let_def)
next
  show "file_messages (snd (remove_file abspath cm p True))
      = filter (\<lambda>m. \<not> has_tag (abspath p) m) (file_messages cm)"
    by (simp add: remove_file_def Let_def)
next
  show "\<not> list_ex (has_tag (abspath p)) (file_messages (snd (remove_file abspath cm p True)))"
    using filter_has_tag_none [of "abspath p" "file_messages cm"]
    by (simp add: remove_file_def Let_def)
next
  show "pinned_files (snd (remove_file abspath cm p True)) = pinned_files cm - {abspath p}"
    by (simp add: remove_file_def Let_def)
next
  show "\<not> is_pinned abspath (snd (remove_file abspath cm p True)) p"
    by (simp add: remove_file_def is_pinned_def Let_def)
next
  show "snd (remove_file abspath cm p True)
      = cm\<lparr>file_messages := file_messages (snd (remove_file abspath cm p True)),
           pinned_files := pinned_files (snd (remove_file abspath cm p True))\<rparr>"
    by (simp add: remove_file_def Let_def)
next
  show "\<not> is_pinned abspath cm p \<and> \<not> list_ex (has_tag (abspath p)) (file_messages cm)
        \<longrightarrow> remove_file abspath cm p False = (True, cm)"
  proof
    assume a: "\<not> is_pinned abspath cm p \<and> \<not> list_ex (has_tag (abspath p)) (file_messages cm)"
    then have "filter (\<lambda>m. \<not> has_tag (abspath p) m) (file_messages cm) = file_messages cm"
      by (simp add: list_ex_iff)
    moreover from a have "pinned_files cm - {abspath p} = pinned_files cm"
      by (auto simp: is_pinned_def)
    ultimately show "remove_file abspath cm p False = (True, cm)"
      using a by (simp add: remove_file_def is_pinned_def Let_def)
  qed
qed

lemma ex_pinned_state:
  "file_messages ex_pinned
     = [Message ''user'' ''[PROJECT_FILE] /a\<newline>x = 1'',
        Message ''user'' ''[PROJECT_FILE] /b\<newline>y = 1'']"
  "pinned_files ex_pinned = {''/b'', ''/a''}"
  "convo_messages ex_pinned = [Message ''user'' ''hello'']"
  by (simp_all add: ex_pinned_def ex_two_def ex_default_def add_user_def trim_convo_def ctx_defs)

theorem remove_file_contract_witness:
  "is_pinned abs_id ex_pinned ''/a''
   \<and> remove_file abs_id ex_pinned ''/a'' False = (False, ex_pinned)
   \<and> fst (remove_file abs_id ex_pinned ''/a'' True)
   \<and> file_messages (snd (remove_file abs_id ex_pinned ''/a'' True))
       = [Message ''user'' ''[PROJECT_FILE] /b\<newline>y = 1'']
   \<and> pinned_files (snd (remove_file abs_id ex_pinned ''/a'' True)) = {''/b''}
   \<and> convo_messages (snd (remove_file abs_id ex_pinned ''/a'' True)) = [Message ''user'' ''hello'']
   \<and> \<not> is_pinned abs_id ex_pinned ''/c''
   \<and> \<not> list_ex (has_tag (abs_id ''/c'')) (file_messages ex_pinned)
   \<and> remove_file abs_id ex_pinned ''/c'' False = (True, ex_pinned)"
proof -
  have pinned: "is_pinned abs_id ex_pinned ''/a''"
    by (simp add: is_pinned_def ex_pinned_state abs_id_def)
  have absent: "\<not> is_pinned abs_id ex_pinned ''/c''
      \<and> \<not> list_ex (has_tag (abs_id ''/c'')) (file_messages ex_pinned)"
    by (simp add: ex_pinned_state is_pinned_def has_tag_def startswith_def file_tag_def
        Message_def abs_id_def newline_def)
  have kept: "filter (\<lambda>m. \<not> has_tag (abs_id ''/a'') m) (file_messages ex_pinned)
      = [Message ''user'' ''[PROJECT_FILE] /b\<newline>y = 1'']"
    by (simp add: ex_pinned_state has_tag_def startswith_def file_tag_def Message_def
        abs_id_def newline_def)
  have pins: "pinned_files ex_pinned - {abs_id ''/a''} = {''/b''}"
    by (auto simp: ex_pinned_state abs_id_def)
  note c = remove_file_contract [of abs_id ex_pinned "''/a''"]
  from c pinned have 1: "remove_file abs_id ex_pinned ''/a'' False = (False, ex_pinned)
      \<and> fst (remove_file abs_id ex_pinned ''/a'' True)"
    by blast
  from c have f: "file_messages (snd (remove_file abs_id ex_pinned ''/a'' True))
      = filter (\<lambda>m. \<not> has_tag (abs_id ''/a'') m) (file_messages ex_pinned)"
    and s: "pinned_files (snd (remove_file abs_id ex_pinned ''/a'' True))
      = pinned_files ex_pinned - {abs_id ''/a''}"
    and e: "snd (remove_file abs_id ex_pinned ''/a'' True)
      = ex_pinned\<lparr>file_messages := file_messages (snd (remove_file abs_id ex_pinned ''/a'' True)),
           pinned_files := pinned_files (snd (remove_file abs_id ex_pinned ''/a'' True))\<rparr>"
    by blast+
  have "convo_messages (snd (remove_file abs_id ex_pinned ''/a'' True))
      = convo_messages ex_pinned"
    by (subst e) simp
  then have 3: "convo_messages (snd (remove_file abs_id ex_pinned ''/a'' True))
      = [Message ''user'' ''hello'']"
    by (simp add: ex_pinned_state)
  from remove_file_contract [of abs_id ex_pinned "''/c''"] absent
  have 2: "remove_file abs_id ex_pinned ''/c'' False = (True, ex_pinned)"
    by blast
  from pinned absent 1 2 3 f s kept pins show ?thesis by simp
qed

lemma filter_single_out:
  assumes k: "k < length xs" and Pk: "P (xs ! k)"
    and uniq: "\<forall>j < length xs. j \<noteq> k \<longrightarrow> \<not> P (xs ! j)"
  shows "filter (\<lambda>x. \<not> P x) xs = take k xs @ drop (Suc k) xs"
proof -
  have split: "xs = take k xs @ xs ! k # drop (Suc k) xs"
    using k by (rule id_take_nth_drop)
  have front: "\<forall>x \<in> set (take k xs). \<not> P x"
  proof
    fix x assume "x \<in> set (take k xs)"
    then obtain i where i: "i < length (take k xs)" and x: "x = take k xs ! i"
      by (auto simp: in_set_conv_nth)
    from i k have "i < length xs" "i \<noteq> k" by auto
    with uniq x i show "\<not> P x" by auto
  qed
  have rear: "\<forall>x \<in> set (drop (Suc k) xs). \<not> P x"
  proof
    fix x assume "x \<in> set (drop (Suc k) xs)"
    then obtain i where i: "i < length (drop (Suc k) xs)" and x: "x = drop (Suc k) xs ! i"
      by (auto simp: in_set_conv_nth)
    from i have "Suc k + i < length xs" "Suc k + i \<noteq> k" by auto
    with uniq have "\<not> P (xs ! (Suc k + i))" by blast
    with x i show "\<not> P x" by simp
  qed
  have "filter (\<lambda>x. \<not> P x) xs
      = filter (\<lambda>x. \<not> P x) (take k xs @ xs ! k # drop (Suc k) xs)"
    using split by simp
  also have "\<dots> = take k xs @ drop (Suc k) xs"
    using front rear Pk by (simp add: filter_id_conv del: append_take_drop_id)
  finally show ?thesis .
qed

text \<open>
  C3 (as amended). \<open>upsert_file\<close> does not replace in place: when the file layer holds
  the entry for the path at position \<open>k\<close> (and nowhere else), the call takes that entry
  out and appends the new one at the end of the layer. The entries before and after
  position \<open>k\<close> keep their relative order, and the layer keeps its length.
\<close>

theorem upsert_file_moves_entry_to_end:
  assumes "k < length (file_messages cm)"
    and "has_tag p (file_messages cm ! k)"
    and "\<forall>j < length (file_messages cm). j \<noteq> k \<longrightarrow> \<not> has_tag p (file_messages cm ! j)"
  shows "file_messages (upsert_file cm p text) =
           take k (file_messages cm) @ drop (Suc k) (file_messages cm)
           @ [Message ''user'' (file_tag p @ [newline] @ apply_file_budget (max_file_tokens cm) text)]
         \<and> has_tag p (last (file_messages (upsert_file cm p text)))
         \<and> length (file_messages (upsert_file cm p text)) = length (file_messages cm)"
proof -
  have f: "filter (\<lambda>m. \<not> has_tag p m) (file_messages cm)
      = take k (file_messages cm) @ drop (Suc k) (file_messages cm)"
    using assms by (rule filter_single_out)
  have l: "length (take k (file_messages cm) @ drop (Suc k) (file_messages cm)) + 1
      = length (file_messages cm)"
    using assms(1) by simp
  show ?thesis
    using f l by (simp add: upsert_file_def Let_def has_tag_def startswith_def Message_def)
qed

text \<open>
  With \<open>/a\<close> loaded before \<open>/b\<close>, loading \<open>/a\<close> again puts its entry behind
  the entry of \<open>/b\<close>: position 0 now belongs to \<open>/b\<close>.
\<close>

theorem upsert_in_place_counterexample:
  "map content (file_messages ex_two)
     = [''[PROJECT_FILE] /a\<newline>x = 1'', ''[PROJECT_FILE] /b\<newline>y = 1'']
   \<and> map content (file_messages (upsert_file ex_two ''/a'' ''x = 2''))
     = [''[PROJECT_FILE] /b\<newline>y = 1'', ''[PROJECT_FILE] /a\<newline>x = 2'']"
  by (simp add: ex_two_def ex_default_def ctx_defs)

theorem upsert_file_moves_entry_to_end_witness:
  "0 < length (file_messages ex_two)
   \<and> has_tag ''/a'' (file_messages ex_two ! 0)
   \<and> \<not> has_tag ''/a'' (file_messages ex_two ! 1)
   \<and> file_messages (upsert_file ex_two ''/a'' ''x = 2'') =
       take 0 (file_messages ex_two) @ drop (Suc 0) (file_messages ex_two)
       @ [Message ''user'' (file_tag ''/a'' @ [newline] @ apply_file_budget (max_file_tokens ex_two) ''x = 2'')]
   \<and> has_tag ''/a'' (last (file_messages (upsert_file ex_two ''/a'' ''x = 2'')))"
proof -
  have len: "length (file_messages ex_two) = 2"
    by (simp add: ex_two_def ex_default_def ctx_defs)
  have h1: "0 < length (file_messages ex_two)" using len by simp
  have h2: "has_tag ''/a'' (file_messages ex_two ! 0)"
    by (simp add: ex_two_def ex_default_def ctx_defs)
  have h3: "\<not> has_tag ''/a'' (file_messages ex_two ! 1)"
    by (simp add: ex_two_def ex_default_def ctx_defs)
  have h4: "\<forall>j < length (file_messages ex_two). j \<noteq> 0 \<longrightarrow> \<not> has_tag ''/a'' (file_messages ex_two ! j)"
    using len h3 by (auto simp: less_Suc_eq numeral_2_eq_2)
  from upsert_file_moves_entry_to_end [OF h1 h2 h4, of "''x = 2''"] h1 h2 h3
  show ?thesis by blast
qed

section \<open>Properties of the per-file truncation\<close>

lemma length_TRUNCATED: "length TRUNCATED = 40"
  by (simp add: TRUNCATED_def)

lemma apply_file_budget_within:
  "int (length text) \<le> mft * 4 \<Longrightarrow> apply_file_budget mft text = text"
  by (simp add: apply_file_budget_def)

lemma apply_file_budget_over:
  "\<not> int (length text) \<le> mft * 4 \<Longrightarrow>
   apply_file_budget mft text =
     slice_to text (mft * 4 div 2) @ TRUNCATED @ slice_from text (- (mft * 4 div 2 - 100))"
  by (simp add: apply_file_budget_def Let_def)

lemma apply_file_budget_marked:
  "int (length text) > mft * 4 \<Longrightarrow> sublist TRUNCATED (apply_file_budget mft text)"
  by (simp add: apply_file_budget_over)

lemma length_apply_file_budget_large:
  assumes "50 < mft" and "\<not> int (length text) \<le> mft * 4"
  shows "int (length (apply_file_budget mft text)) = mft * 4 - 60"
proof -
  have h: "mft * 4 div 2 = mft * 2" by simp
  have a: "length (slice_to text (mft * 2)) = nat (mft * 2)"
    using assms by (simp add: slice_to_def)
  have b: "length (slice_from text (- (mft * 2 - 100))) = nat (mft * 2 - 100)"
    using assms by (simp add: slice_from_def)
  show ?thesis
    using assms a b by (simp add: apply_file_budget_over h length_TRUNCATED)
qed

lemma apply_file_budget_idem_large:
  assumes "50 < mft"
  shows "apply_file_budget mft (apply_file_budget mft text) = apply_file_budget mft text"
proof (cases "int (length text) \<le> mft * 4")
  case True
  then show ?thesis by (simp add: apply_file_budget_within)
next
  case False
  with assms have "int (length (apply_file_budget mft text)) \<le> mft * 4"
    by (simp add: length_apply_file_budget_large)
  then show ?thesis by (rule apply_file_budget_within)
qed

lemma apply_file_budget_50_once:
  assumes "length t = 201"
  shows "apply_file_budget 50 t = take 100 t @ TRUNCATED @ t"
  using assms by (simp add: apply_file_budget_def slice_to_def slice_from_def)

lemma apply_file_budget_50_twice:
  assumes "length t = 201"
  shows "apply_file_budget 50 (apply_file_budget 50 t)
      = take 100 t @ TRUNCATED @ take 100 t @ TRUNCATED @ t"
proof -
  let ?u = "take 100 t @ TRUNCATED @ t"
  have len: "length ?u = 341" using assms by (simp add: length_TRUNCATED)
  have "apply_file_budget 50 ?u = take 100 ?u @ TRUNCATED @ ?u"
    using len by (simp add: apply_file_budget_def slice_to_def slice_from_def)
  moreover have "take 100 ?u = take 100 t" using assms by simp
  ultimately show ?thesis using assms by (simp add: apply_file_budget_50_once)
qed

text \<open>
  C5. With \<open>max_file_tokens = 50\<close> the budget is 200 characters and \<open>half - 100 = 0\<close>,
  so the tail slice \<open>content[-0:]\<close> is the whole text. A text of 201 characters comes
  back 341 characters long, still over the budget, and a second application makes it
  481 characters long: the two results differ. (For \<open>max_file_tokens > 50\<close> the
  function is idempotent: \<open>apply_file_budget_idem_large\<close>.)
\<close>

theorem apply_file_budget_not_idempotent_at_50:
  "length (replicate 201 CHR ''x'') = 201
   \<and> length (apply_file_budget 50 (replicate 201 CHR ''x'')) = 341
   \<and> length (apply_file_budget 50 (apply_file_budget 50 (replicate 201 CHR ''x''))) = 481
   \<and> apply_file_budget 50 (apply_file_budget 50 (replicate 201 CHR ''x''))
       \<noteq> apply_file_budget 50 (replicate 201 CHR ''x'')"
proof -
  let ?t = "replicate 201 CHR ''x''"
  have len: "length ?t = 201" by (simp only: length_replicate)
  have l1: "length (apply_file_budget 50 ?t) = 341"
    unfolding apply_file_budget_50_once [OF len]
    by (simp add: length_TRUNCATED)
  have l2: "length (apply_file_budget 50 (apply_file_budget 50 ?t)) = 481"
    unfolding apply_file_budget_50_twice [OF len]
    by (simp add: length_TRUNCATED)
  have "length (apply_file_budget 50 (apply_file_budget 50 ?t))
      \<noteq> length (apply_file_budget 50 ?t)"
    unfolding l1 l2 by simp
  then have ne: "apply_file_budget 50 (apply_file_budget 50 ?t) \<noteq> apply_file_budget 50 ?t"
    by auto
  from len l1 l2 ne show ?thesis by blast
qed

section \<open>Properties of the conversation layer\<close>

lemma trim_convo_pos:
  assumes "0 < max_convo cm"
  shows "convo_messages (trim_convo cm) = most_recent (nat (max_convo cm)) (convo_messages cm)"
  using assms by (auto simp: trim_convo_def slice_from_def most_recent_def nat_diff_distrib')

lemma run_call_convo:
  assumes "0 < max_convo cm"
  shows "convo_messages (run_call cm c)
      = most_recent (nat (max_convo cm)) (convo_messages cm @ [message_of_call c])"
  using assms by (cases c) (simp_all add: add_user_def add_assistant_def trim_convo_pos)

lemma run_call_max_convo [simp]: "max_convo (run_call cm c) = max_convo cm"
  by (cases c) (simp_all add: add_user_def add_assistant_def trim_convo_def)

lemma most_recent_append:
  "most_recent n (most_recent n xs @ ys) = most_recent n (xs @ ys)"
proof (cases "length xs \<le> n")
  case True
  then show ?thesis by (simp add: most_recent_def)
next
  case False
  then have "length xs - n + n = length xs" by simp
  then show ?thesis using False by (simp add: most_recent_def add.commute)
qed

lemma foldl_run_call_max_convo [simp]: "max_convo (foldl run_call cm cs) = max_convo cm"
  by (induction cs arbitrary: cm) simp_all

lemma convo_fifo_positive:
  assumes "0 < max_convo cm"
  shows "most_recent (nat (max_convo cm)) (convo_messages (foldl run_call cm cs))
      = most_recent (nat (max_convo cm)) (convo_messages cm @ map message_of_call cs)"
  using assms
proof (induction cs arbitrary: cm)
  case Nil
  then show ?case by simp
next
  case (Cons c cs)
  have "most_recent (nat (max_convo cm)) (convo_messages (foldl run_call (run_call cm c) cs))
      = most_recent (nat (max_convo cm)) (convo_messages (run_call cm c) @ map message_of_call cs)"
    using Cons.IH [of "run_call cm c"] Cons.prems by simp
  also have "\<dots> = most_recent (nat (max_convo cm))
      ((convo_messages cm @ [message_of_call c]) @ map message_of_call cs)"
    using Cons.prems by (simp only: run_call_convo most_recent_append)
  finally show ?case by simp
qed

lemma most_recent_idem: "most_recent n (most_recent n xs) = most_recent n xs"
  by (auto simp: most_recent_def)

lemma convo_fifo_bound_positive:
  assumes "0 < max_convo cm" and "cs \<noteq> []"
  shows "convo_messages (foldl run_call cm cs)
      = most_recent (nat (max_convo cm)) (convo_messages cm @ map message_of_call cs)"
proof -
  obtain cs' c where cs: "cs = cs' @ [c]"
    using assms(2) by (metis rev_exhaust)
  let ?cm = "foldl run_call cm cs'"
  have "convo_messages (foldl run_call cm cs)
      = most_recent (nat (max_convo cm)) (convo_messages ?cm @ [message_of_call c])"
    using assms(1) cs by (simp add: run_call_convo)
  also have "\<dots> = most_recent (nat (max_convo cm))
      (most_recent (nat (max_convo cm)) (convo_messages ?cm) @ [message_of_call c])"
    by (simp only: most_recent_append)
  also have "\<dots> = most_recent (nat (max_convo cm))
      (most_recent (nat (max_convo cm)) (convo_messages cm @ map message_of_call cs') @ [message_of_call c])"
    using convo_fifo_positive [OF assms(1), of cs'] by simp
  also have "\<dots> = most_recent (nat (max_convo cm))
      (convo_messages cm @ map message_of_call cs)"
    using cs by (simp only: most_recent_append) simp
  finally show ?thesis .
qed

lemma convo_length_bound_positive:
  assumes "0 < max_convo cm" and "cs \<noteq> []"
  shows "int (length (convo_messages (foldl run_call cm cs))) \<le> max_convo cm"
  using assms by (simp add: convo_fifo_bound_positive most_recent_def)

text \<open>
  C6. With \<open>max_convo = 0\<close> the trim keeps everything: the slice
  \<open>self._convo_messages[-0:]\<close> is the whole list, so after one append the layer holds
  one message and after two appends two, where the bound asks for none. (For a positive
  \<open>max_convo\<close> the layer is the most recent \<open>max_convo\<close> messages in order:
  \<open>convo_fifo_bound_positive\<close>, \<open>convo_length_bound_positive\<close>.)
\<close>

theorem trim_convo_zero_keeps_everything:
  "max_convo (init ''sys'' 4500 1500 0) = 0
   \<and> convo_messages (add_user (init ''sys'' 4500 1500 0) ''hi'') = [Message ''user'' ''hi'']
   \<and> convo_messages (add_assistant (add_user (init ''sys'' 4500 1500 0) ''hi'') ''hello'')
        = [Message ''user'' ''hi'', Message ''assistant'' ''hello'']"
  by (simp add: add_user_def add_assistant_def trim_convo_def slice_from_def init_def)

section \<open>Properties of build_messages\<close>


lemma token_estimate_pos: "0 < token_estimate m"
  by (simp add: token_estimate_def)



lemma total_tokens_Cons: "total_tokens cm eph convo \<le> total_tokens cm eph (m # convo)"
  using token_estimate_pos [of m] by (simp add: total_tokens_def)







lemma compress_nonneg:
  assumes "0 \<le> max_file_tokens cm"
  shows "content (compress cm m) = take (nat (max_file_tokens cm * 2)) (content m)"
proof -
  have "int (length (slice_to (content m) (max_file_tokens cm * 2))) \<le> max_file_tokens cm * 4"
    using assms by (simp add: slice_to_def)
  then show ?thesis
    using assms by (simp add: compress_def Message_def apply_file_budget_within slice_to_def)
qed





lemma ex_over_files:
  "file_messages ex_over =
     [Message ''user'' (''[PROJECT_FILE] /a'' @ [newline] @ replicate 120 CHR ''x''
        @ TRUNCATED @ replicate 20 CHR ''x'')]"
  by (simp add: ex_over_def add_user_def trim_convo_def upsert_file_def init_def Message_def
      file_tag_def apply_file_budget_def slice_to_def slice_from_def Let_def)

lemma ex_over_convo:
  "convo_messages ex_over = [Message ''user'' (replicate 100 CHR ''u'')]"
  by (simp add: ex_over_def add_user_def trim_convo_def upsert_file_def init_def Message_def Let_def)

lemma ex_over_params:
  "system ex_over = Message ''system'' ''sys''" "max_total ex_over = 40" "max_file_tokens ex_over = 60"
  by (simp_all add: ex_over_def add_user_def trim_convo_def upsert_file_def init_def Let_def)

lemma ex_over_drop: "drop_oldest ex_over [] (convo_messages ex_over) = []"
  by (simp add: ex_over_convo total_tokens_def token_estimate_def ex_over_files ex_over_params
      Message_def length_TRUNCATED)

lemma ex_over_total: "total_tokens ex_over [] [] = 50"
  by (simp add: total_tokens_def token_estimate_def ex_over_files ex_over_params
      Message_def length_TRUNCATED)

lemma ex_over_build:
  "build_messages ex_over None =
     [[(''role'', ''system''), (''content'', ''sys'')],
      [(''role'', ''user''),
       (''content'', ''[PROJECT_FILE] /a'' @ [newline] @ replicate 102 CHR ''x'')]]"
proof -
  let ?m0 = "Message ''user'' (''[PROJECT_FILE] /a'' @ [newline] @ replicate 120 CHR ''x''
        @ TRUNCATED @ replicate 20 CHR ''x'')"
  have c: "content (compress ex_over ?m0)
      = ''[PROJECT_FILE] /a'' @ [newline] @ replicate 102 CHR ''x''"
    by (simp add: compress_nonneg ex_over_params Message_def)
  have r: "role (compress ex_over ?m0) = ''user''"
    by (simp add: compress_def Message_def)
  have cm: "compress ex_over ?m0
      = Message ''user'' (''[PROJECT_FILE] /a'' @ [newline] @ replicate 102 CHR ''x'')"
    using c r by (simp add: Message_def)
  have mapc: "map (compress ex_over) (file_messages ex_over)
      = [Message ''user'' (''[PROJECT_FILE] /a'' @ [newline] @ replicate 102 CHR ''x'')]"
    unfolding ex_over_files using cm by simp
  have over: "total_tokens ex_over [] (drop_oldest ex_over [] (convo_messages ex_over))
      > max_total ex_over"
    by (simp add: ex_over_drop ex_over_total ex_over_params)
  have "build_messages ex_over None
      = map to_dict ([system ex_over] @ map (compress ex_over) (file_messages ex_over) @ [] @ [])"
    unfolding build_messages_def ephemeral_of_def using over
    by (simp add: ex_over_drop Let_def)
  then show ?thesis
    unfolding mapc by (simp add: ex_over_params to_dict_def Message_def)
qed

text \<open>
  C4. A file of 300 characters stored under \<open>max_file_tokens = 60\<close> carries the
  marker. With a budget of 40 tokens \<open>build_messages\<close> drains the conversation and
  shrinks the entry: the slice to \<open>2 * max_file_tokens = 120\<close> characters ends before
  the marker, and \<open>_apply_file_budget\<close> on 120 characters (its threshold is 240) adds
  none. The entry in the result is cut and holds no marker. (The truncation at upsert
  always carries the marker: \<open>apply_file_budget_marked\<close>; for every non-negative
  \<open>max_file_tokens\<close> the emergency step is the bare prefix: \<open>compress_nonneg\<close>.)
\<close>

theorem emergency_truncation_drops_marker:
  "sublist TRUNCATED (content (hd (file_messages ex_over)))
   \<and> build_messages ex_over None =
       [[(''role'', ''system''), (''content'', ''sys'')],
        [(''role'', ''user''),
         (''content'', ''[PROJECT_FILE] /a'' @ [newline] @ replicate 102 CHR ''x'')]]
   \<and> \<not> sublist TRUNCATED (''[PROJECT_FILE] /a'' @ [newline] @ replicate 102 CHR ''x'')"
proof -
  have "content (hd (file_messages ex_over))
      = (''[PROJECT_FILE] /a'' @ [newline] @ replicate 120 CHR ''x'')
        @ TRUNCATED @ replicate 20 CHR ''x''"
    by (simp add: ex_over_files Message_def)
  then have stored: "sublist TRUNCATED (content (hd (file_messages ex_over)))"
    by (simp only: sublist_appendI)
  note built = ex_over_build
  have "CHR ''*'' \<in> set TRUNCATED" by (simp add: TRUNCATED_def)
  moreover have "CHR ''*'' \<notin> set (''[PROJECT_FILE] /a'' @ [newline] @ replicate 102 CHR ''x'')"
    by (simp add: newline_def)
  ultimately have cut: "\<not> sublist TRUNCATED (''[PROJECT_FILE] /a'' @ [newline] @ replicate 102 CHR ''x'')"
    using set_mono_sublist by blast
  from stored built cut show ?thesis by blast
qed

section \<open>Uniqueness of file entries\<close>

lemma prefix_line:
  assumes "newline \<notin> set p" and "newline \<notin> set q"
  shows "prefix (p @ [newline]) (q @ newline # rest) \<longleftrightarrow> p = q"
  using assms
proof (induction p arbitrary: q)
  case Nil
  then show ?case by (cases q) auto
next
  case (Cons c p)
  then show ?case by (cases q) auto
qed

lemma has_tag_entry:
  assumes "newline \<notin> set p" and "newline \<notin> set q"
  shows "has_tag p (entry cm q text) \<longleftrightarrow> p = q"
  using prefix_line [OF assms]
  by (simp add: has_tag_def startswith_def entry_def Message_def file_tag_def)

lemma has_tag_entry_same: "has_tag p (entry cm p text)"
  by (simp add: has_tag_def startswith_def entry_def Message_def file_tag_def)

lemma upsert_file_entry:
  "file_messages (upsert_file cm p text)
     = filter (\<lambda>m. \<not> has_tag p m) (file_messages cm) @ [entry cm p text]"
  by (simp add: upsert_file_def entry_def Let_def)

lemma upsert_file_max_file_tokens [simp]:
  "max_file_tokens (upsert_file cm p text) = max_file_tokens cm"
  by (simp add: upsert_file_def Let_def)

lemma upserts_max_file_tokens [simp]: "max_file_tokens (upserts cm calls) = max_file_tokens cm"
  by (induction calls arbitrary: cm) (simp_all add: upserts_def split: prod.splits)

lemma upserts_snoc: "upserts cm (calls @ [(p, text)]) = upsert_file (upserts cm calls) p text"
  by (simp add: upserts_def)

lemma entry_upserts [simp]: "entry (upserts cm calls) p text = entry cm p text"
  by (simp add: entry_def)

lemma filter_filter_implied:
  "\<forall>x \<in> set xs. P x \<longrightarrow> Q x \<Longrightarrow> filter P (filter Q xs) = filter P xs"
  by (induction xs) auto

lemma upserts_entries:
  assumes "file_messages cm = []"
    and "\<forall>(q, t) \<in> set calls. newline \<notin> set q"
    and "newline \<notin> set p"
  shows "filter (has_tag p) (file_messages (upserts cm calls))
      = (case latest calls p of None \<Rightarrow> [] | Some text \<Rightarrow> [entry cm p text])"
  using assms(2)
proof (induction calls rule: rev_induct)
  case Nil
  then show ?case by (simp add: upserts_def latest_def assms(1))
next
  case (snoc call calls)
  obtain q t where call: "call = (q, t)" by (cases call)
  from snoc.prems call have q: "newline \<notin> set q" by auto
  from snoc.prems have prems': "\<forall>(q, t) \<in> set calls. newline \<notin> set q" by auto
  let ?fm = "file_messages (upserts cm calls)"
  have IH: "filter (has_tag p) ?fm
      = (case latest calls p of None \<Rightarrow> [] | Some text \<Rightarrow> [entry cm p text])"
    using snoc.IH prems' by simp
  have fm': "file_messages (upserts cm (calls @ [call]))
      = filter (\<lambda>m. \<not> has_tag q m) ?fm @ [entry cm q t]"
    by (simp add: call upserts_snoc upsert_file_entry)
  show ?case
  proof (cases "p = q")
    case True
    have "filter (has_tag q) (filter (\<lambda>m. \<not> has_tag q m) ?fm) = []"
      by (induction ?fm) auto
    then show ?thesis
      unfolding fm' using True by (simp add: call latest_def has_tag_entry_same)
  next
    case False
    have keep: "filter (has_tag p) (filter (\<lambda>m. \<not> has_tag q m) ?fm) = filter (has_tag p) ?fm"
    proof -
      have "\<forall>m \<in> set ?fm. has_tag p m \<longrightarrow> \<not> has_tag q m"
      proof (intro ballI impI)
        fix m assume "m \<in> set ?fm" "has_tag p m"
        then have "m \<in> set (filter (has_tag p) ?fm)" by simp
        with IH obtain t0 where "m = entry cm p t0"
          by (auto split: option.splits)
        with False assms(3) q show "\<not> has_tag q m"
          by (simp add: has_tag_entry)
      qed
      then show ?thesis by (rule filter_filter_implied)
    qed
    have "latest (calls @ [call]) p = latest calls p"
      using False by (simp add: latest_def call)
    moreover have "\<not> has_tag p (entry cm q t)"
      using False assms(3) q by (simp add: has_tag_entry)
    ultimately show ?thesis
      unfolding fm' using IH keep by simp
  qed
qed


lemma upserts_members:
  assumes "file_messages cm = []" and "m \<in> set (file_messages (upserts cm calls))"
  shows "\<exists>(q, t) \<in> set calls. m = entry cm q t"
  using assms(2)
proof (induction calls arbitrary: m rule: rev_induct)
  case Nil
  then show ?case by (simp add: upserts_def assms(1))
next
  case (snoc call calls)
  obtain q t where call: "call = (q, t)" by (cases call)
  from snoc.prems have "m \<in> set (file_messages (upserts cm calls)) \<or> m = entry cm q t"
    by (auto simp: call upserts_snoc upsert_file_entry)
  then show ?case
  proof
    assume "m \<in> set (file_messages (upserts cm calls))"
    then have "\<exists>(q, t) \<in> set calls. m = entry cm q t" by (rule snoc.IH)
    then show ?thesis by auto
  next
    assume "m = entry cm q t"
    then show ?thesis by (auto simp: call)
  qed
qed

lemma first_line_entry:
  assumes "newline \<notin> set q"
  shows "first_line (content (entry cm q t)) = ''[PROJECT_FILE] '' @ q"
proof -
  have "takeWhile (\<lambda>c. c \<noteq> newline) (q @ newline # rest) = q" for rest
    using assms by (auto simp: takeWhile_tail takeWhile_eq_all_conv)
  then have "takeWhile (\<lambda>c. c \<noteq> CHR 0x0A) (q @ CHR 0x0A # rest) = q" for rest
    by (simp add: newline_def)
  then show ?thesis
    by (simp add: first_line_def entry_def Message_def file_tag_def newline_def)
qed

lemma distinct_map_by_tag:
  assumes "\<forall>m \<in> set xs. has_tag (f m) m \<and> newline \<notin> set (f m)"
    and "\<forall>p. newline \<notin> set p \<longrightarrow> length (filter (has_tag p) xs) \<le> 1"
  shows "distinct (map f xs)"
  using assms
proof (induction xs)
  case Nil
  then show ?case by simp
next
  case (Cons x xs)
  have tail: "\<forall>p. newline \<notin> set p \<longrightarrow> length (filter (has_tag p) xs) \<le> 1"
  proof (intro allI impI)
    fix p assume "newline \<notin> set p"
    with Cons.prems(2) have "length (filter (has_tag p) (x # xs)) \<le> 1" by blast
    then show "length (filter (has_tag p) xs) \<le> 1" by (simp split: if_splits)
  qed
  have "f x \<notin> f ` set xs"
  proof
    assume "f x \<in> f ` set xs"
    then obtain y where y: "y \<in> set xs" "f y = f x" by auto
    from Cons.prems(1) have x: "has_tag (f x) x" "newline \<notin> set (f x)" by auto
    from Cons.prems(1) y have "has_tag (f x) y" by auto
    with y(1) have "filter (has_tag (f x)) xs \<noteq> []" by (auto simp: filter_empty_conv)
    then have "1 \<le> length (filter (has_tag (f x)) xs)" by (cases "filter (has_tag (f x)) xs") auto
    with x(1) have "2 \<le> length (filter (has_tag (f x)) (x # xs))" by simp
    moreover from Cons.prems(2) x(2) have "length (filter (has_tag (f x)) (x # xs)) \<le> 1" by blast
    ultimately show False by simp
  qed
  moreover have "distinct (map f xs)"
    using Cons.IH Cons.prems(1) tail by simp
  ultimately show ?case by simp
qed

text \<open>
  C8 (as amended). After any sequence of \<open>upsert_file\<close> calls on an empty file layer,
  all with paths that contain no line break, the layer holds at most one entry per
  path, the entry of a path carries the budgeted text of the latest call for that path
  (and there is no entry when the path was never loaded), and \<open>file_paths\<close> lists no
  path twice.
\<close>

theorem upserts_unique_latest:
  assumes "file_messages cm = []"
    and "\<forall>(q, t) \<in> set calls. newline \<notin> set q"
    and "newline \<notin> set p"
  shows "length (filter (has_tag p) (file_messages (upserts cm calls))) \<le> 1
    \<and> filter (has_tag p) (file_messages (upserts cm calls))
        = (case latest calls p of None \<Rightarrow> []
           | Some t \<Rightarrow> [Message ''user''
               (file_tag p @ [newline] @ apply_file_budget (max_file_tokens cm) t)])
    \<and> distinct (file_paths (upserts cm calls))"
proof -
  let ?fm = "file_messages (upserts cm calls)"
  have one: "filter (has_tag p') ?fm
      = (case latest calls p' of None \<Rightarrow> [] | Some t \<Rightarrow> [entry cm p' t])"
    if "newline \<notin> set p'" for p'
    using assms(1,2) that by (rule upserts_entries)
  have len: "length (filter (has_tag p') ?fm) \<le> 1" if "newline \<notin> set p'" for p'
    using one [OF that] by (simp split: option.splits)
  have mem: "has_tag (path_of m) m \<and> newline \<notin> set (path_of m)
      \<and> startswith (first_line (content m)) ''[PROJECT_FILE] ''" if "m \<in> set ?fm" for m
  proof -
    from upserts_members [OF assms(1) that] obtain q t
      where qt: "(q, t) \<in> set calls" "m = entry cm q t" by auto
    with assms(2) have q: "newline \<notin> set q" by auto
    have "path_of m = q"
      using q qt(2) by (simp add: path_of_def first_line_entry)
    moreover have "startswith (first_line (content m)) ''[PROJECT_FILE] ''"
      using q qt(2) by (simp add: first_line_entry startswith_def)
    ultimately show ?thesis using q qt(2) by (simp add: has_tag_entry_same)
  qed
  have all: "filter (\<lambda>m. startswith (first_line (content m)) ''[PROJECT_FILE] '') ?fm = ?fm"
    using mem by (simp add: filter_id_conv)
  have "distinct (map path_of ?fm)"
    using mem len by (intro distinct_map_by_tag) auto
  then have dist: "distinct (file_paths (upserts cm calls))"
    unfolding file_paths_def all path_of_def [abs_def] .
  from one [OF assms(3)] len [OF assms(3)] dist show ?thesis
    by (simp add: entry_def split: option.splits)
qed


text \<open>
  The tag of a path is matched as a prefix that ends at a line break. Loading \<open>/a\<close>
  with a text whose first line is \<open>b\<close> and then loading the path \<open>/a\<newline>b\<close> removes
  the entry of \<open>/a\<close>: the only entry left is read as the entry of \<open>/a\<close> too, and it
  carries \<open>b\<newline>bar\<close>, not the text \<open>b\<newline>foo\<close> last loaded for \<open>/a\<close>.
\<close>

theorem upsert_line_break_identifier_counterexample:
  "latest [(''/a'', ''b\<newline>foo''), (''/a\<newline>b'', ''bar'')] ''/a'' = Some ''b\<newline>foo''
   \<and> map content (file_messages
         (upserts ex_default [(''/a'', ''b\<newline>foo''), (''/a\<newline>b'', ''bar'')]))
       = [''[PROJECT_FILE] /a\<newline>b\<newline>bar'']
   \<and> filter (has_tag ''/a'') (file_messages
         (upserts ex_default [(''/a'', ''b\<newline>foo''), (''/a\<newline>b'', ''bar'')]))
       = [Message ''user'' ''[PROJECT_FILE] /a\<newline>b\<newline>bar'']"
  by (simp add: upserts_def latest_def ex_default_def ctx_defs)

theorem upserts_unique_latest_witness:
  "file_messages ex_default = []
   \<and> newline \<notin> set ''/a'' \<and> newline \<notin> set ''/b''
   \<and> latest [(''/a'', ''x = 1''), (''/b'', ''y = 1''), (''/a'', ''x = 2'')] ''/a'' = Some ''x = 2''
   \<and> filter (has_tag ''/a'')
        (file_messages (upserts ex_default [(''/a'', ''x = 1''), (''/b'', ''y = 1''), (''/a'', ''x = 2'')]))
       = [Message ''user'' (file_tag ''/a'' @ [newline] @ ''x = 2'')]
   \<and> distinct (file_paths (upserts ex_default [(''/a'', ''x = 1''), (''/b'', ''y = 1''), (''/a'', ''x = 2'')]))"
proof -
  let ?calls = "[(''/a'', ''x = 1''), (''/b'', ''y = 1''), (''/a'', ''x = 2'')]"
  have h1: "file_messages ex_default = []" by (simp add: ex_default_def init_def)
  have na: "newline \<notin> set ''/a''" and nb: "newline \<notin> set ''/b''"
    by (simp_all add: newline_def)
  from na nb have h2: "\<forall>(q, t) \<in> set ?calls. newline \<notin> set q" by simp
  have l: "latest ?calls ''/a'' = Some ''x = 2''" by (simp add: latest_def)
  have b: "apply_file_budget (max_file_tokens ex_default) ''x = 2'' = ''x = 2''"
    by (simp add: apply_file_budget_def ex_default_def init_def)
  from upserts_unique_latest [OF h1 h2 na] l b
  have "filter (has_tag ''/a'') (file_messages (upserts ex_default ?calls))
       = [Message ''user'' (file_tag ''/a'' @ [newline] @ ''x = 2'')]
     \<and> distinct (file_paths (upserts ex_default ?calls))"
    by simp
  with h1 na nb l show ?thesis by blast
qed

section \<open>Properties of the retry loop\<close>

lemma sleeps_append: "sleeps (xs @ ys) = sleeps xs @ sleeps ys"
  by (induction xs rule: sleeps.induct) simp_all

lemma creates_append: "creates (xs @ ys) = creates xs @ creates ys"
  by (induction xs rule: creates.induct) simp_all













lemma parse_content_chunk [simp]: "parse_chunk (content_chunk (c # s)) = Some (StreamChunk (c # s) [])"
  by (simp add: content_chunk_def or_empty_def)



section \<open>Properties of send\<close>

lemma consume_accumulates:
  "snd (consume chunks shown full_response) = full_response @ accumulated chunks"
  by (induction chunks arbitrary: shown full_response)
     (simp_all add: accumulated_def Let_def)

lemma send_handled:
  assumes "provider sm (build_messages (entered cm user_message rec)
              (if rec then None else Some user_message)) (temperature sm) (max_tokens sm)
            = (chunks, raised)"
    and "handled raised"
  shows "returned (send sm cm user_message rec)
           = Inr (if accumulated chunks \<noteq> [] then Some (accumulated chunks) else None)"
    and "ctx (send sm cm user_message rec)
           = (if accumulated chunks \<noteq> []
              then add_assistant (entered cm user_message rec) (accumulated chunks)
              else entered cm user_message rec)"
proof -
  obtain shown full where c: "consume chunks [] [] = (shown, full)"
    by (cases "consume chunks [] []")
  then have full: "full = accumulated chunks"
    using consume_accumulates [of chunks "[]" "[]"] by simp
  show "returned (send sm cm user_message rec)
           = Inr (if accumulated chunks \<noteq> [] then Some (accumulated chunks) else None)"
    using assms c full
    by (auto simp: send_def entered_def Let_def finalize_def handled_def
        split: option.splits exn.splits)
  show "ctx (send sm cm user_message rec)
           = (if accumulated chunks \<noteq> []
              then add_assistant (entered cm user_message rec) (accumulated chunks)
              else entered cm user_message rec)"
    using assms c full
    by (auto simp: send_def entered_def Let_def finalize_def handled_def
        split: option.splits exn.splits)
qed

lemma send_unhandled:
  assumes "provider sm (build_messages (entered cm user_message rec)
              (if rec then None else Some user_message)) (temperature sm) (max_tokens sm)
            = (chunks, Some e)"
    and "\<not> handled (Some e)"
  shows "returned (send sm cm user_message rec) = Inl e"
    and "ctx (send sm cm user_message rec) = entered cm user_message rec"
proof -
  obtain shown full where c: "consume chunks [] [] = (shown, full)"
    by (cases "consume chunks [] []")
  show "returned (send sm cm user_message rec) = Inl e"
    using assms c
    by (auto simp: send_def entered_def Let_def handled_def split: exn.splits)
  show "ctx (send sm cm user_message rec) = entered cm user_message rec"
    using assms c
    by (auto simp: send_def entered_def Let_def handled_def split: exn.splits)
qed

lemma add_assistant_last:
  assumes "0 \<le> max_convo cm"
  shows "last (convo_messages (add_assistant cm text)) = Message ''assistant'' text"
    and "suffix (convo_messages (add_assistant cm text))
           (convo_messages cm @ [Message ''assistant'' text])"
proof -
  let ?xs = "convo_messages cm @ [Message ''assistant'' text]"
  have d: "n < length ?xs \<Longrightarrow> last (drop n ?xs) = Message ''assistant'' text" for n
    by (simp add: last_drop)
  show "last (convo_messages (add_assistant cm text)) = Message ''assistant'' text"
    using assms d [of "nat (int (length ?xs) - max_convo cm)"]
    by (auto simp: add_assistant_def trim_convo_def slice_from_def)
  show "suffix (convo_messages (add_assistant cm text)) ?xs"
    by (auto simp: add_assistant_def trim_convo_def slice_from_def suffix_drop)
qed

lemma max_convo_entered [simp]: "max_convo (entered cm u r) = max_convo cm"
  by (simp add: entered_def add_user_def trim_convo_def)

text \<open>
  On the endings \<open>send\<close> handles (exhaustion, the user's interrupt, a \<open>RuntimeError\<close>
  of the provider) the finalize step runs: a non-empty accumulated text is returned and
  appended by one \<open>add_assistant\<close>, an empty one gives \<open>None\<close> and no append.
\<close>

lemma send_finalize_handled:
  assumes "provider sm (build_messages (entered cm user_message rec)
              (if rec then None else Some user_message)) (temperature sm) (max_tokens sm)
            = (chunks, raised)"
    and "raised = None \<or> raised = Some KeyboardInterrupt \<or> (\<exists>msg. raised = Some (RuntimeError msg))"
  shows "(accumulated chunks \<noteq> [] \<longrightarrow>
            returned (send sm cm user_message rec) = Inr (Some (accumulated chunks))
          \<and> ctx (send sm cm user_message rec)
              = add_assistant (entered cm user_message rec) (accumulated chunks)
          \<and> suffix (convo_messages (ctx (send sm cm user_message rec)))
              (convo_messages (entered cm user_message rec)
                 @ [Message ''assistant'' (accumulated chunks)])
          \<and> (0 \<le> max_convo cm \<longrightarrow>
               last (convo_messages (ctx (send sm cm user_message rec)))
                 = Message ''assistant'' (accumulated chunks)))
       \<and> (accumulated chunks = [] \<longrightarrow>
            returned (send sm cm user_message rec) = Inr None
          \<and> ctx (send sm cm user_message rec) = entered cm user_message rec)"
proof -
  from assms(2) have h: "handled raised"
    by (auto simp: handled_def)
  note r = send_handled(1) [OF assms(1) h] and c = send_handled(2) [OF assms(1) h]
  show ?thesis
  proof (cases "accumulated chunks = []")
    case True
    with r c show ?thesis by simp
  next
    case False
    have s: "suffix (convo_messages (add_assistant (entered cm user_message rec) (accumulated chunks)))
        (convo_messages (entered cm user_message rec) @ [Message ''assistant'' (accumulated chunks)])"
      by (auto simp: add_assistant_def trim_convo_def slice_from_def suffix_drop)
    have l: "0 \<le> max_convo cm \<longrightarrow>
        last (convo_messages (add_assistant (entered cm user_message rec) (accumulated chunks)))
          = Message ''assistant'' (accumulated chunks)"
      using add_assistant_last(1) [of "entered cm user_message rec"] by simp
    from False r c s l show ?thesis by simp
  qed
qed

text \<open>
  When \<open>send\<close> runs on \<open>NvidiaProvider.stream\<close>, the remote API fails with
  \<open>APIError\<close>s only and every backoff sleep returns, every ending is one \<open>send\<close>
  handles.
\<close>

lemma stream_loop_ends_handled:
  assumes "\<And>k. api_failures_only (api k)" and "\<And>k. sleeps_well time_sleep np k"
  shows "outcome (stream_loop time_sleep np api n a lx) = Returned
       \<or> (\<exists>msg. outcome (stream_loop time_sleep np api n a lx) = Raised (RuntimeError msg))"
proof (induction n arbitrary: a lx)
  case 0
  show ?case by simp
next
  case (Suc n)
  show ?case
  proof (cases "run_attempt (api a)")
    case (Pair chunks raised)
    show ?thesis
    proof (cases raised)
      case None
      with Pair show ?thesis by simp
    next
      case (Some e)
      have "is_api_error e"
        using assms(1) [of a] Pair Some
        by (cases "api a") (auto simp: api_failures_only_def split: option.splits)
      then show ?thesis
        using Pair Some Suc.IH [of "Suc a" "Some e"] assms(2) [of a]
        by (auto simp: Let_def backoff_def sleeps_well_def split: sum.splits)
    qed
  qed
qed

lemma nvidia_stream_handled:
  assumes "\<And>k. api_failures_only (create ms t mx k)" and "\<And>k. sleeps_well time_sleep np k"
  shows "handled (snd (nvidia_stream time_sleep np create ms t mx))"
  using stream_loop_ends_handled
    [of "create ms t mx" time_sleep np "nat (max_retries np)" 0 None] assms
  by (auto simp: nvidia_stream_def stream_def handled_def Let_def)

text \<open>
  C9. A session on \<open>OllamaProvider\<close> whose completion delivers the fragments \<open>par\<close>
  and \<open>tial\<close> and then fails with an \<open>APIError\<close>: the provider lets the error
  through, \<open>send\<close> catches only \<open>KeyboardInterrupt\<close> and \<open>RuntimeError\<close>, so the error
  leaves \<open>send\<close>: the accumulated text \<open>partial\<close> is neither returned nor appended,
  and the conversation holds the user turn only. The same failure through
  \<open>NvidiaProvider\<close>, which raises a \<open>RuntimeError\<close> for it, ends with \<open>partial\<close>
  returned and appended as the assistant turn.
\<close>

theorem send_loses_reply_on_unwrapped_failure:
  "provider ex_ollama (build_messages (entered ex_default ''hi'' True) None)
       (temperature ex_ollama) (max_tokens ex_ollama)
     = ([StreamChunk ''par'' [], StreamChunk ''tial'' []], Some (APIError ''500''))
   \<and> accumulated [StreamChunk ''par'' [], StreamChunk ''tial'' []] = ''partial''
   \<and> returned (send ex_ollama ex_default ''hi'' True) = Inl (APIError ''500'')
   \<and> convo_messages (ctx (send ex_ollama ex_default ''hi'' True)) = [Message ''user'' ''hi'']
   \<and> returned (send ex_nvidia ex_default ''hi'' True) = Inr (Some ''partial'')
   \<and> convo_messages (ctx (send ex_nvidia ex_default ''hi'' True))
       = [Message ''user'' ''hi'', Message ''assistant'' ''partial'']"
proof -
  let ?chunks = "[StreamChunk ''par'' [], StreamChunk ''tial'' []]"
  have ent: "convo_messages (entered ex_default ''hi'' True) = [Message ''user'' ''hi'']"
    by (simp add: entered_def add_user_def trim_convo_def ex_default_def init_def)
  have app: "convo_messages (add_assistant (entered ex_default ''hi'' True) ''partial'')
      = [Message ''user'' ''hi'', Message ''assistant'' ''partial'']"
    by (simp add: entered_def add_user_def add_assistant_def trim_convo_def ex_default_def init_def)
  have acc: "accumulated ?chunks = ''partial''" by (simp add: accumulated_def)
  have po: "provider ex_ollama (build_messages (entered ex_default ''hi'' True)
              (if True then None else Some ''hi'')) (temperature ex_ollama) (max_tokens ex_ollama)
            = (?chunks, Some (APIError ''500''))"
    by (simp add: ex_ollama_def ollama_stream_def ex_api_failing_def content_chunk_def or_empty_def)
  have nh: "\<not> handled (Some (APIError ''500''))" by (simp add: handled_def)
  have pn: "provider ex_nvidia (build_messages (entered ex_default ''hi'' True)
              (if True then None else Some ''hi'')) (temperature ex_nvidia) (max_tokens ex_nvidia)
            = (?chunks, Some (RuntimeError ''API error: 500''))"
    by (simp add: ex_nvidia_def nvidia_stream_def stream_def ex_np_def ex_api_failing_def
        eval_nat_numeral Let_def)
  have h: "handled (Some (RuntimeError ''API error: 500''))" by (simp add: handled_def)
  from send_unhandled [OF po nh] ent
  have 1: "returned (send ex_ollama ex_default ''hi'' True) = Inl (APIError ''500'')
      \<and> convo_messages (ctx (send ex_ollama ex_default ''hi'' True)) = [Message ''user'' ''hi'']"
    by simp
  from send_handled [OF pn h] acc app
  have 2: "returned (send ex_nvidia ex_default ''hi'' True) = Inr (Some ''partial'')
      \<and> convo_messages (ctx (send ex_nvidia ex_default ''hi'' True))
          = [Message ''user'' ''hi'', Message ''assistant'' ''partial'']"
    by simp
  from po acc 1 2 show ?thesis by simp
qed

section \<open>build_messages leaves the state alone\<close>

lemma drop_oldest_st_frame:
  "attrs (drop_oldest_st s eph a) = attrs s
   \<and> next_addr (drop_oldest_st s eph a) = next_addr s
   \<and> (\<forall>b. b \<noteq> a \<longrightarrow> cells (drop_oldest_st s eph a) b = cells s b)"
proof (induction s eph a rule: drop_oldest_st.induct)
  case (1 s ephemeral convo)
  show ?case
  proof (cases "total_tokens_st s ephemeral convo > self_max_total (attrs s) \<and> cells s convo \<noteq> []")
    case True
    then have "drop_oldest_st s ephemeral convo = drop_oldest_st (pop_first convo s) ephemeral convo"
      by (subst drop_oldest_st.simps) simp
    with 1 True show ?thesis by (simp add: pop_first_def)
  next
    case False
    then have "drop_oldest_st s ephemeral convo = s"
      by (subst drop_oldest_st.simps) auto
    then show ?thesis by simp
  qed
qed

lemma drop_oldest_st_result:
  assumes "a \<noteq> self_file_messages (attrs s)"
  shows "cells (drop_oldest_st s eph a) a = drop_oldest (view s) eph (cells s a)"
  using assms
proof (induction s eph a rule: drop_oldest_st.induct)
  case (1 s ephemeral convo)
  have tt: "total_tokens (view s) ephemeral (cells s convo) = total_tokens_st s ephemeral convo"
    by (simp add: total_tokens_def total_tokens_st_def view_def)
  have mt: "max_total (view s) = self_max_total (attrs s)" by (simp add: view_def)
  show ?case
  proof (cases "total_tokens_st s ephemeral convo > self_max_total (attrs s) \<and> cells s convo \<noteq> []")
    case True
    then obtain m ms where ms: "cells s convo = m # ms" by (cases "cells s convo") auto
    have step: "drop_oldest_st s ephemeral convo = drop_oldest_st (pop_first convo s) ephemeral convo"
      using True by (subst drop_oldest_st.simps) simp
    have neq: "convo \<noteq> self_file_messages (attrs (pop_first convo s))"
      using "1.prems" by (simp add: pop_first_def)
    have IH: "cells (drop_oldest_st (pop_first convo s) ephemeral convo) convo
        = drop_oldest (view (pop_first convo s)) ephemeral (cells (pop_first convo s) convo)"
      using "1.IH" [OF True neq] .
    have popped: "cells (pop_first convo s) convo = ms"
      by (simp add: pop_first_def ms)
    have same: "drop_oldest (view (pop_first convo s)) ephemeral xs = drop_oldest (view s) ephemeral xs" for xs
      using "1.prems"
      by (induction xs) (simp_all add: total_tokens_def view_def pop_first_def)
    have "drop_oldest (view s) ephemeral (m # ms) = drop_oldest (view s) ephemeral ms"
      using True tt mt ms by simp
    then show ?thesis
      unfolding step IH popped same ms by simp
  next
    case False
    then have stop: "drop_oldest_st s ephemeral convo = s"
      by (subst drop_oldest_st.simps) auto
    from False tt mt have "drop_oldest (view s) ephemeral (cells s convo) = cells s convo"
      by (cases "cells s convo") auto
    with stop show ?thesis by simp
  qed
qed


lemma view_store_of: "view (store_of cm) = cm"
  by (simp add: view_def store_of_def)

lemma well_formed_store_of: "well_formed (store_of cm)"
  by (simp add: well_formed_def store_of_def)

lemma compress_st_view: "compress_st s = compress (view s)"
  by (rule ext) (simp add: compress_st_def compress_def view_def)

lemma total_tokens_st_view:
  assumes "cells s' (self_file_messages (attrs s)) = cells s (self_file_messages (attrs s))"
    and "attrs s' = attrs s"
  shows "total_tokens_st s' eph a = total_tokens (view s) eph (cells s' a)"
  using assms by (simp add: total_tokens_st_def total_tokens_def view_def)

lemma drop_oldest_view_cong:
  assumes "system cm' = system cm" and "file_messages cm' = file_messages cm"
    and "max_total cm' = max_total cm"
  shows "drop_oldest cm' eph xs = drop_oldest cm eph xs"
  using assms by (induction xs) (simp_all add: total_tokens_def)

text \<open>
  C10. On every store in which the two lists of \<open>self\<close> are allocated, and for any or
  no ephemeral text, \<open>build_messages\<close> returns the list the first model computes and
  leaves the state as it was: no attribute of \<open>self\<close> is rebound, every list object
  that existed before the call has its elements unchanged, and so the system message,
  the file layer, the conversation layer and the pin set are the same after the call.
  The drops and the shrinking happen in lists allocated during the call.
\<close>

theorem build_messages_frame:
  assumes "well_formed s"
  shows "fst (build_messages_st s e) = build_messages (view s) e
    \<and> view (snd (build_messages_st s e)) = view s
    \<and> attrs (snd (build_messages_st s e)) = attrs s
    \<and> (\<forall>a < next_addr s. cells (snd (build_messages_st s e)) a = cells s a)"
proof -
  define n where "n = next_addr s"
  define cr where "cr = self_convo_messages (attrs s)"
  define fr where "fr = self_file_messages (attrs s)"
  define eph where "eph = ephemeral_of e"
  from assms have lt: "cr < n" "fr < n"
    by (simp_all add: well_formed_def n_def cr_def fr_def)
  define s1 where "s1 = s\<lparr>cells := (cells s)(n := cells s cr), next_addr := Suc n\<rparr>"
  define s2 where "s2 = drop_oldest_st s1 eph n"
  define s3 where "s3 = s2\<lparr>cells := (cells s2)(Suc n := cells s2 fr), next_addr := Suc (Suc n)\<rparr>"
  define over where "over \<longleftrightarrow> total_tokens_st s3 eph n > self_max_total (attrs s)"
  define s4 where "s4 = (if over
      then s3\<lparr>cells := (cells s3)(Suc (Suc n) := map (compress_st s3) (cells s3 (Suc n))),
              next_addr := Suc (Suc (Suc n))\<rparr>
      else s3)"
  define fa where "fa = (if over then Suc (Suc n) else Suc n)"
  have s1: "attrs s1 = attrs s" "next_addr s1 = Suc n" "\<And>a. a \<noteq> n \<Longrightarrow> cells s1 a = cells s a"
    "cells s1 n = cells s cr"
    by (simp_all add: s1_def)
  have s2: "attrs s2 = attrs s" "next_addr s2 = Suc n" "\<And>a. a \<noteq> n \<Longrightarrow> cells s2 a = cells s a"
    using drop_oldest_st_frame [of s1 eph n] s1 by (simp_all add: s2_def)
  have "n \<noteq> self_file_messages (attrs s1)"
    using lt s1 by (simp add: fr_def)
  then have "cells s2 n = drop_oldest (view s1) eph (cells s1 n)"
    unfolding s2_def by (rule drop_oldest_st_result)
  moreover have "drop_oldest (view s1) eph xs = drop_oldest (view s) eph xs" for xs
    using lt s1 by (intro drop_oldest_view_cong) (simp_all add: view_def fr_def)
  ultimately have convo: "cells s2 n = drop_oldest (view s) eph (convo_messages (view s))"
    using s1 by (simp add: view_def cr_def)
  have s3: "attrs s3 = attrs s" "\<And>a. a < n \<Longrightarrow> cells s3 a = cells s a"
    "cells s3 n = cells s2 n" "cells s3 (Suc n) = cells s fr"
    using s2 lt by (simp_all add: s3_def)
  have over_eq: "over \<longleftrightarrow> total_tokens (view s) eph (cells s2 n) > max_total (view s)"
  proof -
    have "total_tokens_st s3 eph n = total_tokens (view s) eph (cells s3 n)"
      using s3 lt by (intro total_tokens_st_view) (simp_all add: fr_def)
    then show ?thesis using s3 by (simp add: over_def view_def)
  qed
  have cv: "compress_st s3 = compress (view s)"
    using s3 lt by (simp add: compress_st_view view_def fr_def compress_def fun_eq_iff)
  have s4: "attrs s4 = attrs s" "\<And>a. a < n \<Longrightarrow> cells s4 a = cells s a"
    "cells s4 n = cells s2 n"
    "cells s4 fa = (if over then map (compress (view s)) (file_messages (view s))
                    else file_messages (view s))"
    using s3 cv by (simp_all add: s4_def fa_def view_def fr_def)
  have run: "build_messages_st s e
      = (map to_dict ([self_system (attrs s4)] @ cells s4 fa @ cells s4 n @ eph), s4)"
    unfolding build_messages_st_def new_list_def Let_def case_prod_beta fst_conv snd_conv
    using s2(1,2) s1(1)
    by (simp add: s4_def fa_def over_def s3_def s2_def s1_def n_def cr_def fr_def eph_def)
  have res: "fst (build_messages_st s e) = build_messages (view s) e"
    using s4 convo over_eq
    by (simp add: run build_messages_def Let_def eph_def view_def)
  have frame: "\<forall>a < next_addr s. cells (snd (build_messages_st s e)) a = cells s a"
    using s4(2) by (simp add: run n_def)
  have at: "attrs (snd (build_messages_st s e)) = attrs s"
    using s4(1) by (simp add: run)
  have "view (snd (build_messages_st s e)) = view s"
    using s4(1) s4(2) [OF lt(1)] s4(2) [OF lt(2)] by (simp add: run view_def cr_def fr_def)
  with res frame at show ?thesis by blast
qed


theorem build_messages_frame_witness:
  "well_formed (store_of ex_over)
   \<and> convo_messages (view (store_of ex_over)) = [Message ''user'' (replicate 100 CHR ''u'')]
   \<and> fst (build_messages_st (store_of ex_over) None) =
       [[(''role'', ''system''), (''content'', ''sys'')],
        [(''role'', ''user''),
         (''content'', ''[PROJECT_FILE] /a'' @ [newline] @ replicate 102 CHR ''x'')]]
   \<and> view (snd (build_messages_st (store_of ex_over) None)) = ex_over
   \<and> cells (snd (build_messages_st (store_of ex_over) None)) 1
       = [Message ''user'' (replicate 100 CHR ''u'')]"
proof -
  have wf: "well_formed (store_of ex_over)" by (rule well_formed_store_of)
  have c: "convo_messages (view (store_of ex_over)) = [Message ''user'' (replicate 100 CHR ''u'')]"
    by (simp add: view_store_of ex_over_convo)
  have one: "(1::nat) < next_addr (store_of ex_over)"
    and cell: "cells (store_of ex_over) 1 = convo_messages ex_over"
    by (simp_all add: store_of_def)
  from build_messages_frame [OF wf, of None]
  have "fst (build_messages_st (store_of ex_over) None) = build_messages (view (store_of ex_over)) None"
    and "view (snd (build_messages_st (store_of ex_over) None)) = view (store_of ex_over)"
    and "\<forall>a < next_addr (store_of ex_over).
          cells (snd (build_messages_st (store_of ex_over) None)) a = cells (store_of ex_over) a"
    by blast+
  with one cell have "fst (build_messages_st (store_of ex_over) None) = build_messages ex_over None"
    and "view (snd (build_messages_st (store_of ex_over) None)) = ex_over"
    and "cells (snd (build_messages_st (store_of ex_over) None)) 1 = convo_messages ex_over"
    by (simp_all add: view_store_of)
  with wf c show ?thesis
    by (simp add: ex_over_build ex_over_convo)
qed

end
